theory Spec2Isabelle
  imports Complex_Main
begin

section \<open>Python values used by \<open>geoloc/view.py\<close>\<close>

text \<open>
  A Python \<open>float\<close> is an IEEE binary64 value.  A finite one is modelled by the rational
  number it denotes, so \<open>Fin q\<close> is only ever built from a \<open>q\<close> that is a binary64 value;
  the two zeros are identified, as Python's \<open>==\<close> does.
\<close>

datatype pyfloat = Fin rat | PInf | NInf | NaN

datatype py_error = IndexError

type_synonym LatLng = "pyfloat \<times> pyfloat"

text \<open>Python's \<open><=\<close> on floats: every comparison with NaN is false.\<close>

fun fle :: "pyfloat \<Rightarrow> pyfloat \<Rightarrow> bool" where
  "fle NaN _ = False"
| "fle _ NaN = False"
| "fle NInf _ = True"
| "fle _ PInf = True"
| "fle (Fin a) (Fin b) = (a \<le> b)"
| "fle _ _ = False"

text \<open>Python's \<open><\<close> on floats.\<close>

fun flt :: "pyfloat \<Rightarrow> pyfloat \<Rightarrow> bool" where
  "flt NaN _ = False"
| "flt _ NaN = False"
| "flt (Fin a) (Fin b) = (a < b)"
| "flt NInf NInf = False"
| "flt NInf _ = True"
| "flt PInf _ = False"
| "flt (Fin a) PInf = True"
| "flt (Fin a) NInf = False"

subsection \<open>Rounding a rational to binary64\<close>

definition pow2 :: "int \<Rightarrow> rat" where
  "pow2 k = (if 0 \<le> k then 2 ^ nat k else 1 / 2 ^ nat (- k))"

definition pow10 :: "int \<Rightarrow> rat" where
  "pow10 k = (if 0 \<le> k then 10 ^ nat k else 1 / 10 ^ nat (- k))"

text \<open>Round to the nearest integer, ties to the even one.\<close>

definition rnd_even :: "rat \<Rightarrow> int" where
  "rnd_even q = (let f = \<lfloor>q\<rfloor>; d = q - of_int f in
     if d < 1 / 2 then f else if 1 / 2 < d then f + 1 else if even f then f else f + 1)"

text \<open>The number of binary digits of a natural number.\<close>

fun bits :: "nat \<Rightarrow> nat" where
  "bits n = (if n = 0 then 0 else Suc (bits (n div 2)))"

declare bits.simps [simp del]

text \<open>
  For \<open>q > 0\<close>, the exponent \<open>e\<close> with \<open>2 ^ e \<le> q < 2 ^ (e + 1)\<close>: one less than the
  number of bits of the integer part when \<open>1 \<le> q\<close>, and found from the reciprocal below 1.
\<close>

definition ilog2 :: "rat \<Rightarrow> int" where
  "ilog2 q = (if 1 \<le> q then int (bits (nat \<lfloor>q\<rfloor>)) - 1
              else - int (bits (nat (\<lceil>1 / q\<rceil> - 1))))"

text \<open>
  Round to nearest, ties to even, on the binary64 grid: 53 significant bits, and the
  fixed spacing \<open>2 ^ -1074\<close> in the subnormal range.  Overflow is decided by the caller.
\<close>

definition rd :: "rat \<Rightarrow> rat" where
  "rd q = (if q = 0 then 0 else
     let a = \<bar>q\<bar>; x = max (ilog2 a - 52) (- 1074);
         r = of_int (rnd_even (a / pow2 x)) * pow2 x
     in if q < 0 then - r else r)"

definition to_double :: "rat \<Rightarrow> pyfloat" where
  "to_double q = (let r = rd q in
     if pow2 1024 \<le> \<bar>r\<bar> then (if q < 0 then NInf else PInf) else Fin r)"

subsection \<open>Strings\<close>

text \<open>
  A string is the list of its characters, and a character is a code point below 256
  (Latin-1).  \<open>str.strip()\<close> removes the characters for which \<open>str.isspace()\<close> holds:
  the codes 9 to 13 and 28 to 32, U+0085 (133) and U+00A0 (160).  \<open>str.lower()\<close> adds
  32 to the codes of \<open>A\<close> to \<open>Z\<close> and of the upper-case letters 192 to 222 (215, the
  multiplication sign, is not a letter).
\<close>

definition is_space :: "char \<Rightarrow> bool" where
  "is_space c = (let k = (of_char c :: nat) in
     (9 \<le> k \<and> k \<le> 13) \<or> (28 \<le> k \<and> k \<le> 32) \<or> k = 133 \<or> k = 160)"

definition strip :: "string \<Rightarrow> string" where
  "strip s = rev (dropWhile is_space (rev (dropWhile is_space s)))"

definition lower_char :: "char \<Rightarrow> char" where
  "lower_char c = (let k = (of_char c :: nat) in
     if (65 \<le> k \<and> k \<le> 90) \<or> (192 \<le> k \<and> k \<le> 222 \<and> k \<noteq> 215)
     then char_of (k + 32) else c)"

definition lower :: "string \<Rightarrow> string" where
  "lower s = map lower_char s"

definition is_digit :: "char \<Rightarrow> bool" where
  "is_digit c = (let k = (of_char c :: nat) in 48 \<le> k \<and> k \<le> 57)"

definition digit_val :: "char \<Rightarrow> nat" where
  "digit_val c = of_char c - 48"

text \<open>The value of a string of decimal digits.\<close>

definition digits_val :: "string \<Rightarrow> nat" where
  "digits_val s = foldl (\<lambda>acc c. 10 * acc + digit_val c) 0 s"

subsection \<open>The built-in \<open>float(str)\<close>\<close>

text \<open>
  Underscores are accepted only between two digits; they are removed before the number
  is read (\<open>prev\<close> is the character before the current one).
\<close>

fun strip_underscores :: "char option \<Rightarrow> string \<Rightarrow> string option" where
  "strip_underscores prev [] = (if prev = Some CHR ''_'' then None else Some [])"
| "strip_underscores prev (c # cs) =
     (if c = CHR ''_'' then
        (case prev of Some p \<Rightarrow> if is_digit p then strip_underscores (Some c) cs else None
         | None \<Rightarrow> None)
      else if prev = Some CHR ''_'' \<and> \<not> is_digit c then None
      else map_option ((#) c) (strip_underscores (Some c) cs))"

text \<open>An optional sign: the sign read (\<open>True\<close> for minus) and the rest.\<close>

fun read_sign :: "string \<Rightarrow> bool \<times> string" where
  "read_sign [] = (False, [])"
| "read_sign (c # cs) =
     (if c = CHR ''-'' then (True, cs) else if c = CHR ''+'' then (False, cs) else (False, c # cs))"

text \<open>The exponent part: empty, or \<open>e\<close>/\<open>E\<close>, an optional sign and at least one digit.\<close>

definition read_exponent :: "string \<Rightarrow> int option" where
  "read_exponent s = (case s of [] \<Rightarrow> Some 0
     | c # t \<Rightarrow>
        if c = CHR ''e'' \<or> c = CHR ''E'' then
          (case read_sign t of (neg, ds) \<Rightarrow>
             if ds \<noteq> [] \<and> list_all is_digit ds
             then Some (if neg then - int (digits_val ds) else int (digits_val ds))
             else None)
        else None)"

text \<open>
  An unsigned decimal number: digits, an optional point and digits (at least one digit
  in all), an optional exponent.  The result is its exact value.
\<close>

definition read_number :: "string \<Rightarrow> rat option" where
  "read_number s =
     (let ip = takeWhile is_digit s; r1 = dropWhile is_digit s;
          dot = (r1 \<noteq> [] \<and> hd r1 = CHR ''.'');
          r2 = (if dot then tl r1 else r1);
          fp = (if dot then takeWhile is_digit r2 else []);
          r3 = (if dot then dropWhile is_digit r2 else r2)
      in if ip = [] \<and> fp = [] then None
         else (case read_exponent r3 of None \<Rightarrow> None
               | Some e \<Rightarrow>
                   Some (of_nat (digits_val (ip @ fp)) * pow10 (e - int (length fp)))))"

text \<open>
  The white space that \<open>float\<close> itself ignores around the number: the codes 9 to 13
  and 32, U+0085 and U+00A0, but not the separators 28 to 31.
\<close>

definition is_float_space :: "char \<Rightarrow> bool" where
  "is_float_space c = (let k = (of_char c :: nat) in
     (9 \<le> k \<and> k \<le> 13) \<or> k = 32 \<or> k = 133 \<or> k = 160)"

definition float_strip :: "string \<Rightarrow> string" where
  "float_strip s = rev (dropWhile is_float_space (rev (dropWhile is_float_space s)))"

text \<open>
  \<open>float(s)\<close>: \<open>None\<close> stands for the \<open>ValueError\<close>.  Surrounding white space is
  ignored; \<open>inf\<close>, \<open>infinity\<close> and \<open>nan\<close> are read in any case; a decimal number is
  rounded to binary64 and overflows to an infinity.
\<close>

definition py_float :: "string \<Rightarrow> pyfloat option" where
  "py_float s =
     (case strip_underscores None (float_strip s) of None \<Rightarrow> None
      | Some t \<Rightarrow>
         (case read_sign t of (neg, u) \<Rightarrow>
            if lower u = ''inf'' \<or> lower u = ''infinity'' then Some (if neg then NInf else PInf)
            else if lower u = ''nan'' then Some NaN
            else (case read_number u of None \<Rightarrow> None
                  | Some q \<Rightarrow> Some (to_double (if neg then - q else q)))))"

section \<open>The coordinate loader\<close>

text \<open>\<open>parse_float\<close>: the \<open>except\<close> branch and the NaN test both give \<open>None\<close>.\<close>

definition parse_float :: "string \<Rightarrow> pyfloat option" where
  "parse_float v = (case py_float (strip v) of None \<Rightarrow> None
     | Some x \<Rightarrow> if x = NaN then None else Some x)"

definition lat_candidates :: "string list" where
  "lat_candidates = [''latitude'', ''lat'', ''y'']"

definition lon_candidates :: "string list" where
  "lon_candidates = [''longitude'', ''lon'', ''lng'', ''x'']"

text \<open>The loop \<open>for i, c in enumerate(cols)\<close> over the normalised header.\<close>

fun scan_cols :: "nat \<Rightarrow> string list \<Rightarrow> nat option \<times> nat option \<Rightarrow> nat option \<times> nat option" where
  "scan_cols i [] idx = idx"
| "scan_cols i (c # cs) (lat_idx, lon_idx) =
     scan_cols (Suc i) cs
       (if lat_idx = None \<and> c \<in> set lat_candidates then Some i else lat_idx,
        if lon_idx = None \<and> c \<in> set lon_candidates then Some i else lon_idx)"

text \<open>
  The indices in use when the row loop starts, for a non-empty header: the named
  columns, else the fallbacks by column count, else the last resort.
\<close>

definition resolve_columns :: "string list \<Rightarrow> nat \<times> nat" where
  "resolve_columns header =
     (let cols = map (\<lambda>c. lower (strip c)) header;
          named = scan_cols 0 cols (None, None);
          idx = (if fst named = None \<or> snd named = None then
                   (if 3 \<le> length cols then (Some 1, Some 2)
                    else if 2 \<le> length cols then (Some 0, Some 1)
                    else named)
                 else named)
      in (case idx of (Some la, Some lo) \<Rightarrow> (la, lo) | _ \<Rightarrow> (1, 2)))"

text \<open>\<open>s.split(",", 1)\<close> for a string that contains a comma.\<close>

definition split_comma :: "string \<Rightarrow> string \<times> string" where
  "split_comma s = (takeWhile (\<lambda>c. c \<noteq> CHR '','') s, tl (dropWhile (\<lambda>c. c \<noteq> CHR '','') s))"

text \<open>
  The length test at the head of the loop body: the row to read, or \<open>None\<close> for
  \<open>continue\<close>.
\<close>

definition repair_row :: "nat \<Rightarrow> nat \<Rightarrow> string list \<Rightarrow> string list option" where
  "repair_row lat_idx lon_idx row =
     (if length row \<le> max lat_idx lon_idx then
        (if length row = 2 \<and> CHR '','' \<in> set (row ! 1)
         then Some [row ! 0, fst (split_comma (row ! 1)), snd (split_comma (row ! 1))]
         else None)
      else Some row)"

definition in_range :: "pyfloat \<Rightarrow> pyfloat \<Rightarrow> bool" where
  "in_range lat lon = (fle (Fin (- 90)) lat \<and> fle lat (Fin 90) \<and>
                        fle (Fin (- 180)) lon \<and> fle lon (Fin 180))"

text \<open>
  One pass of the loop body: \<open>Inr None\<close> when the row adds nothing, \<open>Inr (Some p)\<close>
  when it appends \<open>p\<close>, \<open>Inl IndexError\<close> when \<open>row[lat_idx]\<close> or \<open>row[lon_idx]\<close>
  is out of range.
\<close>

definition row_point :: "nat \<Rightarrow> nat \<Rightarrow> string list \<Rightarrow> py_error + LatLng option" where
  "row_point lat_idx lon_idx row =
     (if row = [] then Inr None
      else (case repair_row lat_idx lon_idx row of None \<Rightarrow> Inr None
        | Some r \<Rightarrow>
            if \<not> lat_idx < length r then Inl IndexError
            else if \<not> lon_idx < length r then Inl IndexError
            else (case (parse_float (r ! lat_idx), parse_float (r ! lon_idx)) of
                    (Some lat, Some lon) \<Rightarrow>
                      if in_range lat lon then Inr (Some (lat, lon)) else Inr None
                  | _ \<Rightarrow> Inr None)))"

fun load_rows :: "nat \<Rightarrow> nat \<Rightarrow> string list list \<Rightarrow> LatLng list \<Rightarrow> py_error + LatLng list" where
  "load_rows lat_idx lon_idx [] points = Inr points"
| "load_rows lat_idx lon_idx (row # rows) points =
     (case row_point lat_idx lon_idx row of
        Inl e \<Rightarrow> Inl e
      | Inr None \<Rightarrow> load_rows lat_idx lon_idx rows points
      | Inr (Some p) \<Rightarrow> load_rows lat_idx lon_idx rows (points @ [p]))"

text \<open>
  \<open>load_csv_points\<close> on the rows that \<open>csv.reader\<close> yields for the file, the header
  first.  A file without rows, or whose first row is empty, gives no points.
\<close>

definition load_csv_points :: "string list list \<Rightarrow> py_error + LatLng list" where
  "load_csv_points rows = (case rows of [] \<Rightarrow> Inr []
     | header # rest \<Rightarrow>
         if header = [] then Inr []
         else (case resolve_columns header of (lat_idx, lon_idx) \<Rightarrow>
                 load_rows lat_idx lon_idx rest []))"

text \<open>
  The words of the specification for column resolution: a header name is a latitude
  (longitude) name when, trimmed and lower-cased, it is one of the synonyms, and an index
  is the first match when no earlier column matches.
\<close>

definition is_lat_name :: "string \<Rightarrow> bool" where
  "is_lat_name c = (lower (strip c) \<in> {''latitude'', ''lat'', ''y''})"

definition is_lon_name :: "string \<Rightarrow> bool" where
  "is_lon_name c = (lower (strip c) \<in> {''longitude'', ''lon'', ''lng'', ''x''})"

definition first_match :: "(string \<Rightarrow> bool) \<Rightarrow> string list \<Rightarrow> nat \<Rightarrow> bool" where
  "first_match P header i = (i < length header \<and> P (header ! i) \<and> (\<forall>k<i. \<not> P (header ! k)))"

fun first_index :: "('a \<Rightarrow> bool) \<Rightarrow> 'a list \<Rightarrow> nat option" where
  "first_index P [] = None"
| "first_index P (x # xs) = (if P x then Some 0 else map_option Suc (first_index P xs))"

section \<open>Decimal numerals\<close>

text \<open>
  A decimal numeral as \<open>repr\<close> writes a float: a sign, the digits before the point,
  the digits after it (none: no point is written), and an optional exponent with its
  sign and digits.  Digits are numbers below 10.
\<close>

datatype decimal = Decimal bool "nat list" "nat list" "(bool \<times> nat list) option"

definition digit_char :: "nat \<Rightarrow> char" where
  "digit_char d = char_of (48 + d)"

definition digits_str :: "nat list \<Rightarrow> string" where
  "digits_str ds = map digit_char ds"

text \<open>The number that a list of digits denotes.\<close>

definition digits_num :: "nat list \<Rightarrow> nat" where
  "digits_num ds = foldl (\<lambda>acc d. 10 * acc + d) 0 ds"

fun exponent_str :: "(bool \<times> nat list) option \<Rightarrow> string" where
  "exponent_str None = []"
| "exponent_str (Some (neg, ds)) = CHR ''e'' # (if neg then CHR ''-'' else CHR ''+'') # digits_str ds"

fun exponent_num :: "(bool \<times> nat list) option \<Rightarrow> int" where
  "exponent_num None = 0"
| "exponent_num (Some (neg, ds)) = (if neg then - int (digits_num ds) else int (digits_num ds))"

fun decimal_str :: "decimal \<Rightarrow> string" where
  "decimal_str (Decimal neg ip fp ex) =
     (if neg then ''-'' else []) @ digits_str ip
       @ (if fp = [] then [] else CHR ''.'' # digits_str fp) @ exponent_str ex"

text \<open>The exact value of the numeral.\<close>

fun decimal_value :: "decimal \<Rightarrow> rat" where
  "decimal_value (Decimal neg ip fp ex) =
     (if neg then - 1 else 1) * of_nat (digits_num (ip @ fp))
       * pow10 (exponent_num ex - int (length fp))"

fun wf_exponent :: "(bool \<times> nat list) option \<Rightarrow> bool" where
  "wf_exponent None = True"
| "wf_exponent (Some (neg, ds)) = (ds \<noteq> [] \<and> list_all (\<lambda>d. d < 10) ds)"

fun wf_decimal :: "decimal \<Rightarrow> bool" where
  "wf_decimal (Decimal neg ip fp ex) =
     (ip \<noteq> [] \<and> list_all (\<lambda>d. d < 10) ip \<and> list_all (\<lambda>d. d < 10) fp \<and> wf_exponent ex)"

text \<open>The numeral without its sign.\<close>

definition unsigned_str :: "nat list \<Rightarrow> nat list \<Rightarrow> (bool \<times> nat list) option \<Rightarrow> string" where
  "unsigned_str ip fp ex =
     digits_str ip @ (if fp = [] then [] else CHR ''.'' # digits_str fp) @ exponent_str ex"

section \<open>The bounds aggregator\<close>

text \<open>
  The built-in \<open>min\<close> on a non-empty sequence starts from the first item and replaces it
  by each later item that is smaller; \<open>max\<close> does the same with greater.
\<close>

fun min_from :: "pyfloat \<Rightarrow> pyfloat list \<Rightarrow> pyfloat" where
  "min_from m [] = m"
| "min_from m (x # xs) = min_from (if flt x m then x else m) xs"

fun max_from :: "pyfloat \<Rightarrow> pyfloat list \<Rightarrow> pyfloat" where
  "max_from m [] = m"
| "max_from m (x # xs) = max_from (if flt m x then x else m) xs"

text \<open>
  The dictionary is the list of its items in insertion order.  The two loops collect the
  coordinates of all points; an empty collection gives \<open>None\<close>, so \<open>min\<close> and \<open>max\<close>
  are only taken of non-empty lists.
\<close>

definition fit_bounds_from_points :: "(string \<times> LatLng list) list \<Rightarrow> LatLng list option" where
  "fit_bounds_from_points points_by_file =
     (let pts = concat (map snd points_by_file);
          lats = map fst pts; lons = map snd pts
      in (case (lats, lons) of
            (la # las, lo # los) \<Rightarrow>
              Some [(min_from la las, min_from lo los), (max_from la las, max_from lo los)]
          | _ \<Rightarrow> None))"

text \<open>The words of the specification: a least and a greatest element of a list.\<close>

definition is_least :: "pyfloat \<Rightarrow> pyfloat list \<Rightarrow> bool" where
  "is_least m xs = (m \<in> set xs \<and> (\<forall>x \<in> set xs. fle m x))"

definition is_greatest :: "pyfloat \<Rightarrow> pyfloat list \<Rightarrow> bool" where
  "is_greatest m xs = (m \<in> set xs \<and> (\<forall>x \<in> set xs. fle x m))"

text \<open>All points of all trajectories, in the order of the two loops.\<close>

definition all_points :: "(string \<times> LatLng list) list \<Rightarrow> LatLng list" where
  "all_points d = concat (map snd d)"

section \<open>The palette generator\<close>

text \<open>
  Arithmetic on finite floats: a finite float is the rational number it denotes, and
  each operation rounds the exact result to binary64.  The values computed for a colour
  are far below the overflow threshold.
\<close>

definition fadd :: "rat \<Rightarrow> rat \<Rightarrow> rat" where
  "fadd x y = rd (x + y)"

definition fsub :: "rat \<Rightarrow> rat \<Rightarrow> rat" where
  "fsub x y = rd (x - y)"

definition fmul :: "rat \<Rightarrow> rat \<Rightarrow> rat" where
  "fmul x y = rd (x * y)"

definition fdiv :: "rat \<Rightarrow> rat \<Rightarrow> rat" where
  "fdiv x y = rd (x / y)"

text \<open>
  \<open>x % 1.0\<close>: the remainder of the truncated division is exact and has the sign of
  \<open>x\<close>; a negative one is moved into the range by adding 1.0, which rounds.
\<close>

definition py_mod1 :: "rat \<Rightarrow> rat" where
  "py_mod1 x = (let m = x - of_int (if 0 \<le> x then \<lfloor>x\<rfloor> else \<lceil>x\<rceil>)
                in if m < 0 then fadd m 1 else m)"

text \<open>\<open>int(x)\<close> truncates towards zero.\<close>

definition py_int :: "rat \<Rightarrow> int" where
  "py_int x = (if 0 \<le> x then \<lfloor>x\<rfloor> else \<lceil>x\<rceil>)"

subsection \<open>The standard module \<open>colorsys\<close>\<close>

definition ONE_THIRD :: rat where
  "ONE_THIRD = fdiv 1 3"

definition ONE_SIXTH :: rat where
  "ONE_SIXTH = fdiv 1 6"

definition TWO_THIRD :: rat where
  "TWO_THIRD = fdiv 2 3"

definition colorsys_v :: "rat \<Rightarrow> rat \<Rightarrow> rat \<Rightarrow> rat" where
  "colorsys_v m1 m2 hue0 =
     (let hue = py_mod1 hue0 in
      if hue < ONE_SIXTH then fadd m1 (fmul (fmul (fsub m2 m1) hue) 6)
      else if hue < 1 / 2 then m2
      else if hue < TWO_THIRD then fadd m1 (fmul (fmul (fsub m2 m1) (fsub TWO_THIRD hue)) 6)
      else m1)"

definition colorsys_hls_to_rgb :: "rat \<Rightarrow> rat \<Rightarrow> rat \<Rightarrow> rat \<times> rat \<times> rat" where
  "colorsys_hls_to_rgb h l s =
     (if s = 0 then (l, l, l)
      else
        let m2 = (if l \<le> 1 / 2 then fmul l (fadd 1 s) else fsub (fadd l s) (fmul l s));
            m1 = fsub (fmul 2 l) m2
        in (colorsys_v m1 m2 (fadd h ONE_THIRD), colorsys_v m1 m2 h,
            colorsys_v m1 m2 (fsub h ONE_THIRD)))"

subsection \<open>\<open>hls_to_rgb\<close>, \<open>rgb_to_hex\<close> and \<open>generate_palette\<close>\<close>

definition hls_to_rgb :: "rat \<Rightarrow> rat \<Rightarrow> rat \<Rightarrow> int \<times> int \<times> int" where
  "hls_to_rgb h l s = (case colorsys_hls_to_rgb h l s of
     (r, g, b) \<Rightarrow> (py_int (fmul r 255), py_int (fmul g 255), py_int (fmul b 255)))"

definition hex_digits :: string where
  "hex_digits = ''0123456789abcdef''"

definition hex_digit :: "nat \<Rightarrow> char" where
  "hex_digit k = hex_digits ! k"

fun hex_str :: "nat \<Rightarrow> string" where
  "hex_str n = (if n < 16 then [hex_digit n] else hex_str (n div 16) @ [hex_digit (n mod 16)])"

declare hex_str.simps [simp del]

text \<open>
  The format \<open>02x\<close>: lower-case hexadecimal, a minus sign for a negative number, zeros
  on the left up to the width 2.
\<close>

definition format_02x :: "int \<Rightarrow> string" where
  "format_02x r =
     (if r < 0 then CHR ''-'' # hex_str (nat (- r))
      else (let s = hex_str (nat r) in if length s < 2 then CHR ''0'' # s else s))"

definition rgb_to_hex :: "int \<Rightarrow> int \<Rightarrow> int \<Rightarrow> string" where
  "rgb_to_hex r g b = CHR ''#'' # format_02x r @ format_02x g @ format_02x b"

text \<open>The body of the loop for the index \<open>i\<close>.\<close>

definition palette_color :: "int \<Rightarrow> nat \<Rightarrow> string" where
  "palette_color n i =
     (let h = py_mod1 (fdiv (of_nat i) (of_int (max 1 n)));
          l = 1 / 2;
          s = rd (8 / 10)
      in (case hls_to_rgb h l s of (r, g, b) \<Rightarrow> rgb_to_hex r g b))"

definition generate_palette :: "int \<Rightarrow> string list" where
  "generate_palette n = (if n \<le> 0 then [] else map (palette_color n) [0..<nat n])"

text \<open>The words of the specification: two hexadecimal digits of a channel below 256.\<close>

definition two_hex :: "nat \<Rightarrow> string" where
  "two_hex k = [hex_digits ! (k div 16), hex_digits ! (k mod 16)]"

text \<open>
  Division of natural numbers rounded to the nearest, ties to even: the integer form of
  \<open>rnd_even\<close> on a fraction.
\<close>

definition div_even :: "nat \<Rightarrow> nat \<Rightarrow> nat" where
  "div_even p q = (let f = p div q; r = p mod q in
     if 2 * r < q then f else if q < 2 * r then f + 1 else if even f then f else f + 1)"

section \<open>Evaluation of the float model\<close>

lemma rd_0: "rd 0 = 0"
  by (simp add: rd_def)

lemma rd_neg: "rd (- q) = - rd q"
  by (simp add: rd_def Let_def)

lemma rd_int_vals:
  "rd 1 = 1" "rd 2 = 2" "rd 5 = 5" "rd 10 = 10" "rd 20 = 20" "rd 30 = 30" "rd 91 = 91"
  by code_simp+

lemma rd_dec_vals:
  "rd (187 / 5) = 5263582064489267 / 140737488355328"
  "rd (1221 / 10) = 4296011832046387 / 35184372088832"
  "rd (977 / 20) = 6875026306157773 / 140737488355328"
  "rd (47 / 20) = 5291729562160333 / 2251799813685248"
  by code_simp+

lemmas float_defs = py_float_def strip_def is_space_def float_strip_def is_float_space_def
  is_digit_def read_number_def
  read_exponent_def digits_val_def digit_val_def lower_def lower_char_def
  to_double_def pow2_def pow10_def rd_0 rd_neg rd_int_vals rd_dec_vals Let_def

lemma py_float_vals:
  "py_float ''37.4'' = Some (Fin (5263582064489267 / 140737488355328))"
  "py_float ''-122.1'' = Some (Fin (- (4296011832046387 / 35184372088832)))"
  "py_float ''48.85'' = Some (Fin (6875026306157773 / 140737488355328))"
  "py_float ''2.35'' = Some (Fin (5291729562160333 / 2251799813685248))"
  "py_float ''1.0'' = Some (Fin 1)"
  "py_float ''2.0'' = Some (Fin 2)"
  "py_float ''91'' = Some (Fin 91)"
  "py_float ''0'' = Some (Fin 0)"
  "py_float ''10'' = Some (Fin 10)"
  "py_float ''20'' = Some (Fin 20)"
  "py_float ''1.2.3.4'' = None"
  "py_float ''8.8.8.8'' = None"
  by (simp_all add: float_defs)

lemma to_double_vals:
  "to_double (374 / 10) = Fin (5263582064489267 / 140737488355328)"
  "to_double (- 1221 / 10) = Fin (- (4296011832046387 / 35184372088832))"
  "to_double (4885 / 100) = Fin (6875026306157773 / 140737488355328)"
  "to_double (235 / 100) = Fin (5291729562160333 / 2251799813685248)"
  by (simp_all add: float_defs)

lemma strip_plain:
  "strip ''37.4'' = ''37.4''" "strip ''-122.1'' = ''-122.1''" "strip ''48.85'' = ''48.85''"
  "strip ''2.35'' = ''2.35''" "strip ''1.0'' = ''1.0''" "strip ''2.0'' = ''2.0''"
  "strip ''91'' = ''91''" "strip ''0'' = ''0''" "strip ''10'' = ''10''" "strip ''20'' = ''20''"
  "strip ''1.2.3.4'' = ''1.2.3.4''" "strip ''8.8.8.8'' = ''8.8.8.8''"
  by (simp_all add: strip_def is_space_def)

lemma parse_float_vals:
  "parse_float ''37.4'' = Some (Fin (5263582064489267 / 140737488355328))"
  "parse_float ''-122.1'' = Some (Fin (- (4296011832046387 / 35184372088832)))"
  "parse_float ''48.85'' = Some (Fin (6875026306157773 / 140737488355328))"
  "parse_float ''2.35'' = Some (Fin (5291729562160333 / 2251799813685248))"
  "parse_float ''1.0'' = Some (Fin 1)"
  "parse_float ''2.0'' = Some (Fin 2)"
  "parse_float ''91'' = Some (Fin 91)"
  "parse_float ''0'' = Some (Fin 0)"
  "parse_float ''10'' = Some (Fin 10)"
  "parse_float ''20'' = Some (Fin 20)"
  "parse_float ''1.2.3.4'' = None"
  "parse_float ''8.8.8.8'' = None"
  by (simp_all add: parse_float_def strip_plain py_float_vals)

lemma resolve_columns_vals:
  "resolve_columns [''ip'', ''latitude'', ''longitude''] = (1, 2)"
  "resolve_columns [''x'', ''y''] = (1, 0)"
  "resolve_columns [''lat'', ''lon''] = (0, 1)"
  "resolve_columns [''lat'', ''ip'', ''lon''] = (0, 2)"
  "resolve_columns [''id'', ''a'', ''b'', ''lat'', ''lon''] = (3, 4)"
  "resolve_columns [''ip''] = (1, 2)"
  by (simp_all add: resolve_columns_def strip_def is_space_def lower_def lower_char_def
      lat_candidates_def lon_candidates_def Let_def)

lemmas row_defs = row_point_def repair_row_def split_comma_def in_range_def
  parse_float_vals to_double_vals

section \<open>Properties of the row loop\<close>

lemma row_point_in_range:
  "row_point la lo row = Inr (Some (lat, lon)) \<Longrightarrow> in_range lat lon"
  by (auto simp: row_point_def split: if_splits option.splits)

lemma load_rows_in_range:
  "load_rows la lo rows acc = Inr pts \<Longrightarrow> \<forall>p \<in> set acc. in_range (fst p) (snd p)
     \<Longrightarrow> \<forall>p \<in> set pts. in_range (fst p) (snd p)"
proof (induction rows arbitrary: acc)
  case Nil
  then show ?case by simp
next
  case (Cons row rows)
  show ?case
  proof (cases "row_point la lo row")
    case (Inl e)
    with Cons.prems show ?thesis by simp
  next
    case (Inr r)
    show ?thesis
    proof (cases r)
      case None
      with Inr Cons show ?thesis by simp
    next
      case (Some p)
      with Inr have "in_range (fst p) (snd p)"
        using row_point_in_range [of la lo row "fst p" "snd p"] by simp
      with Some Inr Cons.prems Cons.IH [of "acc @ [p]"] show ?thesis by simp
    qed
  qed
qed

lemma load_rows_append:
  "load_rows la lo (xs @ ys) acc =
     (case load_rows la lo xs acc of Inl e \<Rightarrow> Inl e | Inr ps \<Rightarrow> load_rows la lo ys ps)"
  by (induction xs arbitrary: acc) (auto split: sum.splits option.splits)

lemma load_rows_acc:
  "load_rows la lo rows acc =
     (case load_rows la lo rows [] of Inl e \<Rightarrow> Inl e | Inr ps \<Rightarrow> Inr (acc @ ps))"
proof (induction rows arbitrary: acc)
  case Nil
  then show ?case by simp
next
  case (Cons row rows)
  show ?case
  proof (cases "row_point la lo row")
    case (Inl e)
    then show ?thesis by simp
  next
    case (Inr r)
    show ?thesis
    proof (cases r)
      case None
      with Inr Cons [of acc] show ?thesis by simp
    next
      case (Some p)
      with Inr Cons [of "acc @ [p]"] Cons [of "[p]"] show ?thesis
        by (simp split: sum.splits)
    qed
  qed
qed

lemma load_rows_skip:
  "row_point la lo row = Inr None \<Longrightarrow>
     load_rows la lo (before @ row # rest) acc = load_rows la lo (before @ rest) acc"
  by (simp add: load_rows_append split: sum.splits)

lemma load_rows_keep:
  assumes "row_point la lo row = Inr (Some p)"
    and "load_rows la lo before [] = Inr ps" and "load_rows la lo rest [] = Inr qs"
  shows "load_rows la lo (before @ row # rest) [] = Inr (ps @ p # qs)"
  using assms load_rows_acc [of la lo rest "ps @ [p]"] by (simp add: load_rows_append)

lemma parse_float_None:
  "parse_float s = None \<longleftrightarrow> py_float (strip s) = None \<or> py_float (strip s) = Some NaN"
  by (auto simp: parse_float_def split: option.splits)

lemma repair_row_Nil: "repair_row la lo [] = None"
  by (simp add: repair_row_def)

lemma row_point_bad:
  assumes "repair_row la lo row = Some r" "la < length r" "lo < length r"
    and "parse_float (r ! la) = None \<or> parse_float (r ! lo) = None \<or>
         (\<exists>lat lon. parse_float (r ! la) = Some lat \<and> parse_float (r ! lo) = Some lon
            \<and> \<not> in_range lat lon)"
  shows "row_point la lo row = Inr None"
proof -
  from assms(1) have "row \<noteq> []" by (auto simp: repair_row_Nil)
  with assms show ?thesis by (auto simp: row_point_def split: option.splits)
qed

lemma row_point_good:
  assumes "la < length row" "lo < length row"
    and "parse_float (row ! la) = Some lat" "parse_float (row ! lo) = Some lon"
    and "in_range lat lon"
  shows "row_point la lo row = Inr (Some (lat, lon))"
proof -
  from assms(1) have "row \<noteq> []" by auto
  moreover from assms(1,2) have "\<not> length row \<le> max la lo"
    by (simp add: max_def)
  then have "repair_row la lo row = Some row"
    by (simp add: repair_row_def)
  ultimately show ?thesis using assms by (simp add: row_point_def)
qed

section \<open>Column resolution\<close>

lemma first_index_None: "first_index P xs = None \<longleftrightarrow> (\<forall>x \<in> set xs. \<not> P x)"
  by (induction xs) auto

lemma first_index_Some:
  "first_index P xs = Some i \<longleftrightarrow> i < length xs \<and> P (xs ! i) \<and> (\<forall>k<i. \<not> P (xs ! k))"
proof (induction xs arbitrary: i)
  case Nil
  then show ?case by simp
next
  case (Cons x xs)
  show ?case
  proof (cases "P x")
    case True
    then show ?thesis by (cases i) auto
  next
    case False
    show ?thesis
    proof (cases i)
      case 0
      with False show ?thesis by auto
    next
      case (Suc j)
      have "(\<forall>k<Suc j. \<not> P ((x # xs) ! k)) \<longleftrightarrow> (\<forall>k<j. \<not> P (xs ! k))"
        using False by (auto simp: less_Suc_eq_0_disj)
      with Suc False Cons [of j] show ?thesis by auto
    qed
  qed
qed

lemma scan_cols_first_index:
  "scan_cols i cs (a, b) =
     (case a of Some x \<Rightarrow> Some x
        | None \<Rightarrow> map_option (\<lambda>k. k + i) (first_index (\<lambda>c. c \<in> set lat_candidates) cs),
      case b of Some x \<Rightarrow> Some x
        | None \<Rightarrow> map_option (\<lambda>k. k + i) (first_index (\<lambda>c. c \<in> set lon_candidates) cs))"
proof (induction cs arbitrary: i a b)
  case Nil
  then show ?case by (simp split: option.splits)
next
  case (Cons c cs)
  show ?case
    by (simp add: Cons split: option.splits) (auto simp: option.map_comp comp_def)
qed

lemma first_index_map: "first_index P (map f xs) = first_index (\<lambda>x. P (f x)) xs"
  by (induction xs) auto

lemma scan_header:
  "scan_cols 0 (map (\<lambda>c. lower (strip c)) header) (None, None) =
     (first_index is_lat_name header, first_index is_lon_name header)"
proof -
  have "(\<lambda>x. lower (strip x) \<in> set lat_candidates) = is_lat_name"
    by (auto simp: is_lat_name_def lat_candidates_def)
  moreover have "(\<lambda>x. lower (strip x) \<in> set lon_candidates) = is_lon_name"
    by (auto simp: is_lon_name_def lon_candidates_def)
  ultimately show ?thesis
    by (simp add: scan_cols_first_index first_index_map option.map_ident)
qed

lemma resolve_columns_named:
  assumes "first_match is_lat_name header i" "first_match is_lon_name header j"
  shows "resolve_columns header = (i, j)"
proof -
  from assms have "first_index is_lat_name header = Some i" "first_index is_lon_name header = Some j"
    by (simp_all add: first_index_Some first_match_def)
  then show ?thesis by (simp add: resolve_columns_def scan_header)
qed

lemma resolve_columns_fallback:
  assumes "\<not> (\<exists>c \<in> set header. is_lat_name c) \<or> \<not> (\<exists>c \<in> set header. is_lon_name c)"
  shows "resolve_columns header =
     (if 3 \<le> length header then (1, 2) else if 2 \<le> length header then (0, 1) else (1, 2))"
proof -
  from assms have "first_index is_lat_name header = None \<or> first_index is_lon_name header = None"
    by (simp add: first_index_None)
  then show ?thesis
    by (auto simp: resolve_columns_def scan_header split: option.splits)
qed

lemma not_both_names: "\<not> (is_lat_name c \<and> is_lon_name c)"
  by (auto simp: is_lat_name_def is_lon_name_def)

lemma resolve_columns_single:
  assumes "length header = 1"
  shows "resolve_columns header = (1, 2)"
proof -
  from assms obtain c where h: "header = [c]" by (cases header) auto
  have "\<not> (\<exists>x \<in> set header. is_lat_name x) \<or> \<not> (\<exists>x \<in> set header. is_lon_name x)"
    using not_both_names [of c] by (auto simp: h)
  from resolve_columns_fallback [OF this] assms show ?thesis by simp
qed

lemma to_double_norm:
  "to_double (187 / 5) = Fin (5263582064489267 / 140737488355328)"
  "to_double (- (1221 / 10)) = Fin (- (4296011832046387 / 35184372088832))"
  "to_double (977 / 20) = Fin (6875026306157773 / 140737488355328)"
  "to_double (47 / 20) = Fin (5291729562160333 / 2251799813685248)"
  by (simp_all add: float_defs)

lemma name_vals:
  "is_lat_name '' Lat ''" "is_lon_name ''LNG''" "\<not> is_lat_name ''id''" "\<not> is_lat_name ''LNG''"
  "\<not> is_lon_name ''id''" "\<not> is_lon_name '' Lat ''" "\<not> is_lat_name ''a''" "\<not> is_lon_name ''a''"
  "\<not> is_lat_name ''b''" "\<not> is_lon_name ''b''" "\<not> is_lon_name ''lat''" "is_lat_name ''lat''"
  by code_simp+

section \<open>The float parser on decimal numerals\<close>

lemma of_char_digit_char: "d < 10 \<Longrightarrow> (of_char (digit_char d) :: nat) = 48 + d"
  by (simp add: digit_char_def)

lemma digit_char_props:
  assumes "d < 10"
  shows "is_digit (digit_char d)" "digit_val (digit_char d) = d"
    "\<not> is_space (digit_char d)" "\<not> is_float_space (digit_char d)"
    "lower_char (digit_char d) = digit_char d"
  using assms
  by (simp_all add: is_digit_def digit_val_def is_space_def is_float_space_def lower_char_def
      of_char_digit_char Let_def)

lemma digit_char_neq:
  assumes "d < 10"
  shows "digit_char d \<noteq> CHR ''_''" "digit_char d \<noteq> CHR ''.''" "digit_char d \<noteq> CHR ''e''"
    "digit_char d \<noteq> CHR ''E''" "digit_char d \<noteq> CHR ''-''" "digit_char d \<noteq> CHR ''+''"
    "digit_char d \<noteq> CHR ''i''" "digit_char d \<noteq> CHR ''n''"
proof -
  have ne: "digit_char d \<noteq> c" if "(of_char c :: nat) < 48 \<or> 57 < (of_char c :: nat)" for c
  proof
    assume "digit_char d = c"
    then have "(of_char c :: nat) = 48 + d" using of_char_digit_char [OF assms] by simp
    with that assms show False by auto
  qed
  show "digit_char d \<noteq> CHR ''_''" "digit_char d \<noteq> CHR ''.''" "digit_char d \<noteq> CHR ''e''"
    "digit_char d \<noteq> CHR ''E''" "digit_char d \<noteq> CHR ''-''" "digit_char d \<noteq> CHR ''+''"
    "digit_char d \<noteq> CHR ''i''" "digit_char d \<noteq> CHR ''n''"
    by (rule ne, simp)+
qed

lemma digits_str_all_digits: "list_all (\<lambda>d. d < 10) ds \<Longrightarrow> list_all is_digit (digits_str ds)"
  by (induction ds) (simp_all add: digits_str_def digit_char_props)

lemma digits_val_foldl:
  "list_all (\<lambda>d. d < 10) ds \<Longrightarrow>
     foldl (\<lambda>acc c. 10 * acc + digit_val c) a (digits_str ds) = foldl (\<lambda>acc d. 10 * acc + d) a ds"
  by (induction ds arbitrary: a) (simp_all add: digits_str_def digit_char_props)

lemma digits_val_digits_str: "list_all (\<lambda>d. d < 10) ds \<Longrightarrow> digits_val (digits_str ds) = digits_num ds"
  by (simp add: digits_val_def digits_num_def digits_val_foldl)

lemma digits_str_append: "digits_str (xs @ ys) = digits_str xs @ digits_str ys"
  by (simp add: digits_str_def)

lemma digits_str_Nil_iff: "digits_str ds = [] \<longleftrightarrow> ds = []"
  by (simp add: digits_str_def)

lemma takeWhile_digits:
  "list_all (\<lambda>d. d < 10) ds \<Longrightarrow> (rest = [] \<or> \<not> is_digit (hd rest)) \<Longrightarrow>
     takeWhile is_digit (digits_str ds @ rest) = digits_str ds"
  by (induction ds) (auto simp: digits_str_def digit_char_props takeWhile_eq_Nil_iff
      intro: takeWhile_eq_Nil_iff [THEN iffD2] split: list.splits)

lemma dropWhile_digits:
  "list_all (\<lambda>d. d < 10) ds \<Longrightarrow> (rest = [] \<or> \<not> is_digit (hd rest)) \<Longrightarrow>
     dropWhile is_digit (digits_str ds @ rest) = rest"
  by (induction ds) (auto simp: digits_str_def digit_char_props dropWhile_eq_self_iff)

lemma trim_id:
  assumes "s \<noteq> []" "\<not> P (hd s)" "\<not> P (last s)"
  shows "rev (dropWhile P (rev (dropWhile P s))) = s"
proof -
  from assms(1,2) have "dropWhile P s = s" by (simp add: dropWhile_eq_self_iff)
  moreover from assms(1,3) have "dropWhile P (rev s) = rev s"
    by (simp add: dropWhile_eq_self_iff hd_rev)
  ultimately show ?thesis by simp
qed

lemma strip_underscores_none:
  "CHR ''_'' \<notin> set s \<Longrightarrow> prev \<noteq> Some CHR ''_'' \<Longrightarrow> strip_underscores prev s = Some s"
  by (induction s arbitrary: prev) auto

lemma digits_str_chars:
  assumes "list_all (\<lambda>d. d < 10) ds" "c \<in> set (digits_str ds)"
  shows "\<not> is_space c \<and> \<not> is_float_space c \<and> c \<noteq> CHR ''_''"
proof -
  from assms obtain d where "d < 10" "c = digit_char d"
    by (auto simp: digits_str_def list_all_iff)
  then show ?thesis by (simp add: digit_char_props digit_char_neq)
qed

lemma sign_chars:
  "\<not> is_space CHR ''-''" "\<not> is_float_space CHR ''-''" "\<not> is_space CHR ''+''" "\<not> is_float_space CHR ''+''"
  "\<not> is_space CHR ''.''" "\<not> is_float_space CHR ''.''" "\<not> is_space CHR ''e''" "\<not> is_float_space CHR ''e''"
  by (simp_all add: is_space_def is_float_space_def)

lemma exponent_str_chars:
  assumes "wf_exponent ex" "c \<in> set (exponent_str ex)"
  shows "\<not> is_space c \<and> \<not> is_float_space c \<and> c \<noteq> CHR ''_''"
proof (cases ex)
  case None
  with assms show ?thesis by simp
next
  case (Some p)
  obtain neg ds where p: "p = (neg, ds)" by (cases p)
  with Some assms have "c = CHR ''e'' \<or> c = CHR ''-'' \<or> c = CHR ''+'' \<or> c \<in> set (digits_str ds)"
    and "list_all (\<lambda>d. d < 10) ds"
    by (auto split: if_splits)
  then show ?thesis using digits_str_chars [of ds c] by (auto simp: sign_chars)
qed

lemma decimal_str_chars:
  assumes "wf_decimal d" "c \<in> set (decimal_str d)"
  shows "\<not> is_space c \<and> \<not> is_float_space c \<and> c \<noteq> CHR ''_''"
proof -
  obtain neg ip fp ex where d: "d = Decimal neg ip fp ex" by (cases d)
  with assms have "c = CHR ''-'' \<or> c = CHR ''.'' \<or> c \<in> set (digits_str ip)
      \<or> c \<in> set (digits_str fp) \<or> c \<in> set (exponent_str ex)"
    by (auto split: if_splits)
  moreover from d assms(1) have "list_all (\<lambda>d. d < 10) ip" "list_all (\<lambda>d. d < 10) fp" "wf_exponent ex"
    by simp_all
  ultimately show ?thesis
    using digits_str_chars [of ip c] digits_str_chars [of fp c] exponent_str_chars [of ex c]
    by (auto simp: sign_chars)
qed

lemma decimal_str_nonempty: "wf_decimal d \<Longrightarrow> decimal_str d \<noteq> []"
  by (cases d) (simp add: digits_str_Nil_iff)

lemma decimal_str_ends:
  assumes "wf_decimal d"
  shows "\<not> is_space (hd (decimal_str d))" "\<not> is_space (last (decimal_str d))"
    "\<not> is_float_space (hd (decimal_str d))" "\<not> is_float_space (last (decimal_str d))"
proof -
  from decimal_str_nonempty [OF assms]
  have "hd (decimal_str d) \<in> set (decimal_str d)" "last (decimal_str d) \<in> set (decimal_str d)"
    by simp_all
  with decimal_str_chars [OF assms]
  show "\<not> is_space (hd (decimal_str d))" "\<not> is_space (last (decimal_str d))"
    "\<not> is_float_space (hd (decimal_str d))" "\<not> is_float_space (last (decimal_str d))"
    by blast+
qed

lemma strip_decimal_str: "wf_decimal d \<Longrightarrow> strip (decimal_str d) = decimal_str d"
  unfolding strip_def
  by (rule trim_id) (simp_all add: decimal_str_nonempty decimal_str_ends del: decimal_str.simps)

lemma float_strip_decimal_str: "wf_decimal d \<Longrightarrow> float_strip (decimal_str d) = decimal_str d"
  unfolding float_strip_def
  by (rule trim_id) (simp_all add: decimal_str_nonempty decimal_str_ends del: decimal_str.simps)

lemma strip_underscores_decimal_str:
  "wf_decimal d \<Longrightarrow> strip_underscores None (decimal_str d) = Some (decimal_str d)"
  by (rule strip_underscores_none) (auto dest: decimal_str_chars)

lemma read_exponent_str:
  assumes "wf_exponent ex"
  shows "read_exponent (exponent_str ex) = Some (exponent_num ex)"
proof (cases ex)
  case None
  then show ?thesis by (simp add: read_exponent_def)
next
  case (Some p)
  obtain neg ds where p: "p = (neg, ds)" by (cases p)
  with Some assms have wf: "ds \<noteq> []" "list_all (\<lambda>d. d < 10) ds" by simp_all
  then have "digits_str ds \<noteq> []" "list_all is_digit (digits_str ds)"
    "digits_val (digits_str ds) = digits_num ds"
    by (simp_all add: digits_str_Nil_iff digits_str_all_digits digits_val_digits_str)
  then show ?thesis by (simp add: Some p read_exponent_def)
qed

lemma exponent_str_head: "exponent_str ex = [] \<or> \<not> is_digit (hd (exponent_str ex))"
  by (cases ex) (auto simp: is_digit_def)

lemma exponent_str_no_dot: "\<not> (exponent_str ex \<noteq> [] \<and> hd (exponent_str ex) = CHR ''.'')"
  by (cases ex) auto

lemma read_number_unsigned:
  assumes "ip \<noteq> []" "list_all (\<lambda>d. d < 10) ip" "list_all (\<lambda>d. d < 10) fp" "wf_exponent ex"
  shows "read_number (unsigned_str ip fp ex) =
     Some (of_nat (digits_num (ip @ fp)) * pow10 (exponent_num ex - int (length fp)))"
proof (cases "fp = []")
  case True
  let ?t = "exponent_str ex"
  have s: "unsigned_str ip fp ex = digits_str ip @ ?t" by (simp add: unsigned_str_def True)
  have tw: "takeWhile is_digit (digits_str ip @ ?t) = digits_str ip"
    and dw: "dropWhile is_digit (digits_str ip @ ?t) = ?t"
    using assms(2) exponent_str_head [of ex] by (simp_all add: takeWhile_digits dropWhile_digits)
  from assms(1) have ne: "digits_str ip \<noteq> []" by (simp add: digits_str_Nil_iff)
  have nodot: "(?t \<noteq> [] \<and> hd ?t = CHR ''.'') = False"
    using exponent_str_no_dot [of ex] by simp
  have "read_number (digits_str ip @ ?t) = Some (of_nat (digits_num ip) * pow10 (exponent_num ex))"
    unfolding read_number_def tw dw Let_def nodot
    using ne by (simp add: read_exponent_str [OF assms(4)] digits_val_digits_str [OF assms(2)])
  then show ?thesis unfolding s by (simp add: True)
next
  case False
  let ?e = "exponent_str ex"
  let ?t = "CHR ''.'' # digits_str fp @ ?e"
  have s: "unsigned_str ip fp ex = digits_str ip @ ?t" by (simp add: unsigned_str_def False)
  have nd: "\<not> is_digit CHR ''.''" by (simp add: is_digit_def)
  have tw: "takeWhile is_digit (digits_str ip @ ?t) = digits_str ip"
    and dw: "dropWhile is_digit (digits_str ip @ ?t) = ?t"
    using assms(2) nd by (simp_all add: takeWhile_digits dropWhile_digits)
  have tw2: "takeWhile is_digit (digits_str fp @ ?e) = digits_str fp"
    and dw2: "dropWhile is_digit (digits_str fp @ ?e) = ?e"
    using assms(3) exponent_str_head [of ex] by (simp_all add: takeWhile_digits dropWhile_digits)
  from assms(1) have ne: "digits_str ip \<noteq> []" by (simp add: digits_str_Nil_iff)
  from assms(2,3) have all: "list_all (\<lambda>d. d < 10) (ip @ fp)" by simp
  have dv: "digits_val (digits_str ip @ digits_str fp) = digits_num (ip @ fp)"
    using digits_val_digits_str [OF all] by (simp add: digits_str_append)
  have len: "length (digits_str fp) = length fp" by (simp add: digits_str_def)
  have dot: "(?t \<noteq> [] \<and> hd ?t = CHR ''.'') = True" "tl ?t = digits_str fp @ ?e"
    by simp_all
  have "read_number (digits_str ip @ ?t) =
      Some (of_nat (digits_num (ip @ fp)) * pow10 (exponent_num ex - int (length fp)))"
    unfolding read_number_def tw dw Let_def dot if_True tw2 dw2
    using ne by (simp add: read_exponent_str [OF assms(4)] dv len)
  then show ?thesis unfolding s .
qed

lemma lower_unsigned_str:
  assumes "ip \<noteq> []" "list_all (\<lambda>d. d < 10) ip"
  shows "lower (unsigned_str ip fp ex) \<noteq> ''inf''" "lower (unsigned_str ip fp ex) \<noteq> ''infinity''"
    "lower (unsigned_str ip fp ex) \<noteq> ''nan''"
proof -
  from assms obtain d ds where ip: "ip = d # ds" and d: "d < 10" by (cases ip) auto
  then have "hd (lower (unsigned_str ip fp ex)) = digit_char d"
    by (simp add: unsigned_str_def lower_def digits_str_def digit_char_props)
  with digit_char_neq [OF d]
  show "lower (unsigned_str ip fp ex) \<noteq> ''inf''" "lower (unsigned_str ip fp ex) \<noteq> ''infinity''"
    "lower (unsigned_str ip fp ex) \<noteq> ''nan''"
    by auto
qed

lemma read_sign_decimal_str:
  assumes "ip \<noteq> []" "list_all (\<lambda>d. d < 10) ip"
  shows "read_sign (decimal_str (Decimal neg ip fp ex)) = (neg, unsigned_str ip fp ex)"
proof -
  from assms obtain d ds where ip: "ip = d # ds" and d: "d < 10" by (cases ip) auto
  then show ?thesis
    using digit_char_neq [OF d] by (simp add: unsigned_str_def digits_str_def)
qed

lemma py_float_decimal_str:
  assumes "wf_decimal d"
  shows "py_float (decimal_str d) = Some (to_double (decimal_value d))"
proof -
  obtain neg ip fp ex where d: "d = Decimal neg ip fp ex" by (cases d)
  with assms have wf: "ip \<noteq> []" "list_all (\<lambda>d. d < 10) ip" "list_all (\<lambda>d. d < 10) fp" "wf_exponent ex"
    by simp_all
  have "py_float (decimal_str d) =
      Some (to_double (if neg then - (of_nat (digits_num (ip @ fp)) * pow10 (exponent_num ex - int (length fp)))
                       else of_nat (digits_num (ip @ fp)) * pow10 (exponent_num ex - int (length fp))))"
    unfolding py_float_def float_strip_decimal_str [OF assms] strip_underscores_decimal_str [OF assms]
    unfolding d
    using lower_unsigned_str [OF wf(1,2), of fp ex]
    by (simp add: read_sign_decimal_str [OF wf(1,2)] read_number_unsigned [OF wf] del: decimal_str.simps)
  then show ?thesis by (simp add: d)
qed

lemma to_double_not_NaN: "to_double q \<noteq> NaN"
  by (simp add: to_double_def Let_def)

lemma parse_float_decimal_str:
  "wf_decimal d \<Longrightarrow> parse_float (decimal_str d) = Some (to_double (decimal_value d))"
  by (simp add: parse_float_def strip_decimal_str py_float_decimal_str to_double_not_NaN)

section \<open>Row repair and further evaluations\<close>

lemma load_rows_cong:
  "row_point la lo r1 = row_point la lo r2 \<Longrightarrow>
     load_rows la lo (before @ r1 # rest) acc = load_rows la lo (before @ r2 # rest) acc"
  by (simp add: load_rows_append split: sum.splits)

lemma split_comma_first: "CHR '','' \<notin> set a \<Longrightarrow> split_comma (a @ CHR '','' # b) = (a, b)"
proof -
  assume "CHR '','' \<notin> set a"
  then have "\<And>x. x \<in> set a \<Longrightarrow> x \<noteq> CHR '',''" by auto
  then have "takeWhile (\<lambda>c. c \<noteq> CHR '','') (a @ CHR '','' # b) = a"
    and "dropWhile (\<lambda>c. c \<noteq> CHR '','') (a @ CHR '','' # b) = CHR '','' # b"
    by (simp_all add: takeWhile_append2 dropWhile_append2)
  then show ?thesis by (simp add: split_comma_def)
qed

lemma row_point_short:
  assumes "length row \<le> max la lo" "\<not> (length row = 2 \<and> CHR '','' \<in> set (row ! 1))"
  shows "row_point la lo row = Inr None"
  using assms by (auto simp: row_point_def repair_row_def)

lemma row_point_repaired:
  assumes "CHR '','' \<notin> set a" "max la lo = 2"
  shows "row_point la lo [ident, a @ CHR '','' # b] = row_point la lo [ident, a, b]"
proof -
  from assms have "repair_row la lo [ident, a @ CHR '','' # b] = Some [ident, a, b]"
    by (simp add: repair_row_def split_comma_first)
  moreover from assms(2) have "repair_row la lo [ident, a, b] = Some [ident, a, b]"
    by (simp add: repair_row_def)
  ultimately show ?thesis by (simp add: row_point_def)
qed

lemma rd_more_vals:
  "rd (1 / 4) = 1 / 4" "rd 45 = 45" "rd 3 = 3" "rd 7 = 7"
  by code_simp+

lemma to_double_more:
  "to_double (- (1 / 4)) = Fin (- (1 / 4))"
  "to_double 45 = Fin 45" "to_double 0 = Fin 0" "to_double 5 = Fin 5" "to_double 3 = Fin 3"
  by (simp_all add: to_double_def rd_neg rd_more_vals rd_int_vals rd_0 pow2_def Let_def)

lemma decimal_str_vals:
  "decimal_str (Decimal False [4, 8] [8, 5] None) = ''48.85''"
  "decimal_str (Decimal True [2] [5] (Some (True, [0, 1]))) = ''-2.5e-01''"
  by code_simp+

lemma decimal_value_vals:
  "decimal_value (Decimal False [4, 8] [8, 5] None) = 4885 / 100"
  "decimal_value (Decimal True [2] [5] (Some (True, [0, 1]))) = - (1 / 4)"
  by (simp_all add: digits_num_def pow10_def)

lemma decimal_vals_Suc:
  "decimal_str (Decimal True [2] [5] (Some (True, [0, Suc 0]))) = ''-2.5e-01''"
  "decimal_value (Decimal True [2] [5] (Some (True, [0, Suc 0]))) = - (1 / 4)"
  using decimal_str_vals(2) decimal_value_vals(2) by (simp_all del: decimal_str.simps decimal_value.simps)

lemma more_parse_vals:
  "parse_float [CHR 0xA0, CHR ''4'', CHR ''5''] = Some (Fin 45)"
  "parse_float ''5'' = Some (Fin 5)" "parse_float ''1'' = Some (Fin 1)"
  "parse_float ''2,3'' = None" "parse_float ''1,2'' = None" "parse_float ''3'' = Some (Fin 3)"
  by (simp_all add: parse_float_def float_defs to_double_more rd_more_vals)

lemma more_name_vals:
  "is_lon_name (CHR 0xA0 # ''lon'')" "\<not> is_lat_name (CHR 0xA0 # ''lon'')"
  by code_simp+

section \<open>Claims about the coordinate loader\<close>

text \<open>
  C1.  Every point of a returned trajectory has its latitude in \<open>[-90, 90]\<close> and its
  longitude in \<open>[-180, 180]\<close>.  A data row whose candidate fields exist, and of which one
  is not read as a number, is read as NaN, or is out of range, adds no point and raises
  no error: the loader returns what it returns without that row.
\<close>

theorem load_csv_points_range:
  "(load_csv_points rows = Inr pts \<longrightarrow>
      (\<forall>(lat, lon) \<in> set pts. fle (Fin (- 90)) lat \<and> fle lat (Fin 90) \<and>
                                fle (Fin (- 180)) lon \<and> fle lon (Fin 180)))
   \<and> (header \<noteq> [] \<and> resolve_columns header = (la, lo) \<and> repair_row la lo row = Some r
        \<and> la < length r \<and> lo < length r
        \<and> (py_float (strip (r ! la)) = None \<or> py_float (strip (r ! la)) = Some NaN
            \<or> py_float (strip (r ! lo)) = None \<or> py_float (strip (r ! lo)) = Some NaN
            \<or> (\<exists>lat lon. parse_float (r ! la) = Some lat \<and> parse_float (r ! lo) = Some lon
                  \<and> \<not> (fle (Fin (- 90)) lat \<and> fle lat (Fin 90) \<and>
                         fle (Fin (- 180)) lon \<and> fle lon (Fin 180))))
      \<longrightarrow> load_csv_points (header # before @ row # rest) = load_csv_points (header # before @ rest))"
proof (intro conjI impI)
  assume ok: "load_csv_points rows = Inr pts"
  have "\<forall>p \<in> set pts. in_range (fst p) (snd p)"
  proof (cases rows)
    case Nil
    with ok show ?thesis by (simp add: load_csv_points_def)
  next
    case (Cons h rest)
    show ?thesis
    proof (cases "h = []")
      case True
      with Cons ok show ?thesis by (simp add: load_csv_points_def)
    next
      case False
      with Cons ok have "load_rows (fst (resolve_columns h)) (snd (resolve_columns h)) rest [] = Inr pts"
        by (simp add: load_csv_points_def split: prod.splits)
      then show ?thesis using load_rows_in_range by fastforce
    qed
  qed
  then show "\<forall>(lat, lon) \<in> set pts. fle (Fin (- 90)) lat \<and> fle lat (Fin 90) \<and>
                                fle (Fin (- 180)) lon \<and> fle lon (Fin 180)"
    by (auto simp: in_range_def)
next
  assume a: "header \<noteq> [] \<and> resolve_columns header = (la, lo) \<and> repair_row la lo row = Some r
        \<and> la < length r \<and> lo < length r
        \<and> (py_float (strip (r ! la)) = None \<or> py_float (strip (r ! la)) = Some NaN
            \<or> py_float (strip (r ! lo)) = None \<or> py_float (strip (r ! lo)) = Some NaN
            \<or> (\<exists>lat lon. parse_float (r ! la) = Some lat \<and> parse_float (r ! lo) = Some lon
                  \<and> \<not> (fle (Fin (- 90)) lat \<and> fle lat (Fin 90) \<and>
                         fle (Fin (- 180)) lon \<and> fle lon (Fin 180))))"
  then have "parse_float (r ! la) = None \<or> parse_float (r ! lo) = None \<or>
         (\<exists>lat lon. parse_float (r ! la) = Some lat \<and> parse_float (r ! lo) = Some lon
            \<and> \<not> in_range lat lon)"
    unfolding parse_float_None in_range_def by blast
  with a have "row_point la lo row = Inr None"
    using row_point_bad [of la lo row r] by blast
  then have "load_rows la lo (before @ row # rest) [] = load_rows la lo (before @ rest) []"
    by (rule load_rows_skip)
  with a show "load_csv_points (header # before @ row # rest) = load_csv_points (header # before @ rest)"
    by (simp add: load_csv_points_def)
qed

text \<open>
  C3, as the code has it.  Under the header \<open>x,y\<close> both names are synonyms: \<open>y\<close> names
  the latitude column and \<open>x\<close> the longitude column, so the row \<open>1.0,2.0\<close> gives the point
  with latitude 2.0 and longitude 1.0.
\<close>

theorem load_csv_points_xy_header:
  "load_csv_points [[''x'', ''y''], [''1.0'', ''2.0'']] = Inr [(Fin 2, Fin 1)]"
  by (simp add: load_csv_points_def resolve_columns_vals row_defs)

text \<open>
  The header \<open>x,y\<close> resolves by name to latitude index 1 and longitude index 0, and the
  loader does not return the point \<open>(1.0, 2.0)\<close>.
\<close>

theorem load_csv_points_xy_header_counterexample:
  "resolve_columns [''x'', ''y''] = (1, 0) \<and>
   load_csv_points [[''x'', ''y''], [''1.0'', ''2.0'']] \<noteq> Inr [(Fin 1, Fin 2)]"
  by (simp add: load_csv_points_def resolve_columns_vals row_defs)

text \<open>
  C9.  The loader can raise: under a header whose named latitude column is at index 3, a
  two-field row with a comma in its second field is repaired to three fields and then
  indexed at 3, which is an \<open>IndexError\<close>.
\<close>

theorem load_csv_points_raises:
  "load_csv_points [[''id'', ''a'', ''b'', ''lat'', ''lon''], [''1.2.3.4'', ''48.85,2.35'']]
     = Inl IndexError"
  by (simp add: load_csv_points_def resolve_columns_vals row_defs)

text \<open>
  C2.  With header names trimmed and lower-cased, the latitude index is the first column
  named \<open>latitude\<close>, \<open>lat\<close> or \<open>y\<close> and the longitude index, independently, the first one
  named \<open>longitude\<close>, \<open>lon\<close>, \<open>lng\<close> or \<open>x\<close>.  When one of them has no match, a header of
  at least three columns gives the indices 1 and 2, and otherwise a header of at least
  two columns gives 0 and 1.  The header \<open>ip,latitude,longitude\<close> with the row
  \<open>8.8.8.8,37.4,-122.1\<close> yields the point \<open>(37.4, -122.1)\<close>.
\<close>

theorem resolve_columns_spec:
  "(first_match is_lat_name header i \<and> first_match is_lon_name header j
      \<longrightarrow> resolve_columns header = (i, j))
   \<and> ((\<not> (\<exists>c \<in> set header. is_lat_name c) \<or> \<not> (\<exists>c \<in> set header. is_lon_name c))
        \<and> 3 \<le> length header \<longrightarrow> resolve_columns header = (1, 2))
   \<and> ((\<not> (\<exists>c \<in> set header. is_lat_name c) \<or> \<not> (\<exists>c \<in> set header. is_lon_name c))
        \<and> \<not> 3 \<le> length header \<and> 2 \<le> length header \<longrightarrow> resolve_columns header = (0, 1))
   \<and> load_csv_points [[''ip'', ''latitude'', ''longitude''], [''8.8.8.8'', ''37.4'', ''-122.1'']]
        = Inr [(to_double (374 / 10), to_double (- 1221 / 10))]"
proof (intro conjI impI)
  assume "first_match is_lat_name header i \<and> first_match is_lon_name header j"
  then show "resolve_columns header = (i, j)" by (simp add: resolve_columns_named)
next
  assume "(\<not> (\<exists>c \<in> set header. is_lat_name c) \<or> \<not> (\<exists>c \<in> set header. is_lon_name c))
        \<and> 3 \<le> length header"
  then show "resolve_columns header = (1, 2)" using resolve_columns_fallback [of header] by simp
next
  assume "(\<not> (\<exists>c \<in> set header. is_lat_name c) \<or> \<not> (\<exists>c \<in> set header. is_lon_name c))
        \<and> \<not> 3 \<le> length header \<and> 2 \<le> length header"
  then show "resolve_columns header = (0, 1)" using resolve_columns_fallback [of header] by simp
next
  show "load_csv_points [[''ip'', ''latitude'', ''longitude''], [''8.8.8.8'', ''37.4'', ''-122.1'']]
        = Inr [(to_double (374 / 10), to_double (- 1221 / 10))]"
    by (simp add: load_csv_points_def resolve_columns_vals row_defs to_double_norm)
qed

theorem load_csv_points_range_witness:
  "load_csv_points [[''lat'', ''lon''], [''91'', ''0''], [''10'', ''20'']] = Inr [(Fin 10, Fin 20)]
   \<and> fle (Fin (- 90)) (Fin 10) \<and> fle (Fin 10) (Fin 90) \<and> fle (Fin (- 180)) (Fin 20) \<and> fle (Fin 20) (Fin 180)
   \<and> parse_float ''91'' = Some (Fin 91) \<and> \<not> fle (Fin 91) (Fin 90)
   \<and> load_csv_points [[''lat'', ''lon''], [''91'', ''0''], [''10'', ''20'']]
       = load_csv_points [[''lat'', ''lon''], [''10'', ''20'']]
   \<and> load_csv_points [[''lat'', ''lon''], [[CHR 0xA0, CHR ''4'', CHR ''5''], ''0'']]
       = Inr [(Fin 45, Fin 0)]"
proof -
  have ev: "load_csv_points [[''lat'', ''lon''], [''91'', ''0''], [''10'', ''20'']] = Inr [(Fin 10, Fin 20)]"
    by (simp add: load_csv_points_def resolve_columns_vals row_defs)
  have hyp: "[''lat'', ''lon''] \<noteq> [] \<and> resolve_columns [''lat'', ''lon''] = (0, 1)
      \<and> repair_row 0 1 [''91'', ''0''] = Some [''91'', ''0'']
      \<and> 0 < length [''91'', ''0''] \<and> 1 < length [''91'', ''0'']"
    by (simp add: resolve_columns_vals repair_row_def)
  have pf: "parse_float ([''91'', ''0''] ! 0) = Some (Fin 91) \<and> parse_float ([''91'', ''0''] ! 1) = Some (Fin 0)
      \<and> \<not> (fle (Fin (- 90)) (Fin 91) \<and> fle (Fin 91) (Fin 90) \<and>
             fle (Fin (- 180)) (Fin 0) \<and> fle (Fin 0) (Fin 180))"
    by (simp add: parse_float_vals)
  have nbsp: "load_csv_points [[''lat'', ''lon''], [[CHR 0xA0, CHR ''4'', CHR ''5''], ''0'']]
       = Inr [(Fin 45, Fin 0)]"
    by (simp add: load_csv_points_def resolve_columns_vals row_point_def repair_row_def in_range_def
        parse_float_vals more_parse_vals)
  from load_csv_points_range [of "[[''lat'', ''lon''], [''91'', ''0''], [''10'', ''20'']]" "[(Fin 10, Fin 20)]"
      "[''lat'', ''lon'']" 0 1 "[''91'', ''0'']" "[''91'', ''0'']" "[]" "[[''10'', ''20'']]"]
    ev hyp pf nbsp
  show ?thesis by (auto simp: parse_float_vals)
qed

theorem resolve_columns_spec_witness:
  "first_match is_lat_name [''id'', '' Lat '', ''LNG''] 1
   \<and> first_match is_lon_name [''id'', '' Lat '', ''LNG''] 2
   \<and> resolve_columns [''id'', '' Lat '', ''LNG''] = (1, 2)
   \<and> first_match is_lat_name [CHR 0xA0 # ''lon'', ''lat''] 1
   \<and> first_match is_lon_name [CHR 0xA0 # ''lon'', ''lat''] 0
   \<and> resolve_columns [CHR 0xA0 # ''lon'', ''lat''] = (1, 0)
   \<and> \<not> (\<exists>c \<in> set [''lat'', ''a'', ''b'']. is_lon_name c)
   \<and> resolve_columns [''lat'', ''a'', ''b''] = (1, 2)
   \<and> \<not> (\<exists>c \<in> set [''a'', ''b'']. is_lat_name c)
   \<and> resolve_columns [''a'', ''b''] = (0, 1)"
proof -
  have h1: "first_match is_lat_name [''id'', '' Lat '', ''LNG''] 1
      \<and> first_match is_lon_name [''id'', '' Lat '', ''LNG''] 2"
    by (auto simp: first_match_def name_vals less_Suc_eq numeral_2_eq_2)
  have h1': "first_match is_lat_name [CHR 0xA0 # ''lon'', ''lat''] 1
      \<and> first_match is_lon_name [CHR 0xA0 # ''lon'', ''lat''] 0"
    by (auto simp: first_match_def name_vals more_name_vals)
  have h2: "\<not> (\<exists>c \<in> set [''lat'', ''a'', ''b'']. is_lon_name c)"
    by (simp add: name_vals)
  have h3: "\<not> (\<exists>c \<in> set [''a'', ''b'']. is_lat_name c)"
    by (simp add: name_vals)
  from resolve_columns_spec [of "[''id'', '' Lat '', ''LNG'']" 1 2] h1
  have r1: "resolve_columns [''id'', '' Lat '', ''LNG''] = (1, 2)" by blast
  from resolve_columns_spec [of "[CHR 0xA0 # ''lon'', ''lat'']" 1 0] h1'
  have r1': "resolve_columns [CHR 0xA0 # ''lon'', ''lat''] = (1, 0)" by blast
  from resolve_columns_spec [of "[''lat'', ''a'', ''b'']" 0 0] h2
  have r2: "resolve_columns [''lat'', ''a'', ''b''] = (1, 2)" by simp
  from resolve_columns_spec [of "[''a'', ''b'']" 0 0] h3
  have r3: "resolve_columns [''a'', ''b''] = (0, 1)" by simp
  from h1 h1' h2 h3 r1 r1' r2 r3 show ?thesis by blast
qed

text \<open>
  C4, as the code has it.  A data row that is too short for the resolved indices is
  skipped, unless it has exactly two fields and a comma in the second.  Such a row is
  replaced by the three-field row made of its first field and the two parts of its second
  field around the first comma, and, when the larger resolved index is 2, the loader
  returns what it returns for that three-field row, read at the resolved indices.  With
  latitude index 1 and longitude index 2 the row \<open>1.2.3.4 | 48.85,2.35\<close> gives the point
  \<open>(48.85, 2.35)\<close>; a second comma stays in the last part, which then is no number.
\<close>

theorem row_repair:
  "(header \<noteq> [] \<and> resolve_columns header = (la, lo) \<and> length row \<le> max la lo
      \<and> \<not> (length row = 2 \<and> CHR '','' \<in> set (row ! 1))
      \<longrightarrow> load_csv_points (header # before @ row # rest) = load_csv_points (header # before @ rest))
   \<and> (header \<noteq> [] \<and> resolve_columns header = (la, lo) \<and> max la lo = 2 \<and> CHR '','' \<notin> set a
      \<longrightarrow> load_csv_points (header # before @ [ident, a @ CHR '','' # b] # rest)
            = load_csv_points (header # before @ [ident, a, b] # rest))
   \<and> load_csv_points [[''ip'', ''latitude'', ''longitude''], [''1.2.3.4'', ''48.85,2.35'']]
        = Inr [(to_double (4885 / 100), to_double (235 / 100))]
   \<and> load_csv_points [[''lat'', ''ip'', ''lon''], [''5'', ''1,2,3'']] = Inr []"
proof (intro conjI impI)
  assume a: "header \<noteq> [] \<and> resolve_columns header = (la, lo) \<and> length row \<le> max la lo
      \<and> \<not> (length row = 2 \<and> CHR '','' \<in> set (row ! 1))"
  then have "row_point la lo row = Inr None" by (simp add: row_point_short)
  then have "load_rows la lo (before @ row # rest) [] = load_rows la lo (before @ rest) []"
    by (rule load_rows_skip)
  with a show "load_csv_points (header # before @ row # rest) = load_csv_points (header # before @ rest)"
    by (simp add: load_csv_points_def)
next
  assume a: "header \<noteq> [] \<and> resolve_columns header = (la, lo) \<and> max la lo = 2 \<and> CHR '','' \<notin> set a"
  then have "row_point la lo [ident, a @ CHR '','' # b] = row_point la lo [ident, a, b]"
    by (simp add: row_point_repaired)
  then have "load_rows la lo (before @ [ident, a @ CHR '','' # b] # rest) []
      = load_rows la lo (before @ [ident, a, b] # rest) []"
    by (rule load_rows_cong)
  with a show "load_csv_points (header # before @ [ident, a @ CHR '','' # b] # rest)
            = load_csv_points (header # before @ [ident, a, b] # rest)"
    by (simp add: load_csv_points_def)
next
  show "load_csv_points [[''ip'', ''latitude'', ''longitude''], [''1.2.3.4'', ''48.85,2.35'']]
        = Inr [(to_double (4885 / 100), to_double (235 / 100))]"
    by (simp add: load_csv_points_def resolve_columns_vals row_defs to_double_norm)
next
  show "load_csv_points [[''lat'', ''ip'', ''lon''], [''5'', ''1,2,3'']] = Inr []"
    by (simp add: load_csv_points_def resolve_columns_vals row_defs more_parse_vals)
qed

theorem row_repair_witness:
  "load_csv_points [[''ip'', ''latitude'', ''longitude''], [''1.2.3.4'', ''48.85''], [''9.9.9.9'', ''10'', ''20'']]
     = load_csv_points [[''ip'', ''latitude'', ''longitude''], [''9.9.9.9'', ''10'', ''20'']]
   \<and> load_csv_points [[''ip'', ''latitude'', ''longitude''], [''1.2.3.4'', ''48.85,2.35'']]
     = load_csv_points [[''ip'', ''latitude'', ''longitude''], [''1.2.3.4'', ''48.85'', ''2.35'']]
   \<and> load_csv_points [[''ip'', ''latitude'', ''longitude''], [''1.2.3.4'', ''48.85'', ''2.35'']]
     = Inr [(to_double (4885 / 100), to_double (235 / 100))]"
proof -
  let ?h = "[''ip'', ''latitude'', ''longitude'']"
  have h1: "?h \<noteq> [] \<and> resolve_columns ?h = (1, 2) \<and> length [''1.2.3.4'', ''48.85''] \<le> max 1 (2::nat)
     \<and> \<not> (length [''1.2.3.4'', ''48.85''] = 2 \<and> CHR '','' \<in> set ([''1.2.3.4'', ''48.85''] ! 1))"
    by (simp add: resolve_columns_vals)
  have h2: "?h \<noteq> [] \<and> resolve_columns ?h = (1, 2) \<and> max 1 (2::nat) = 2 \<and> CHR '','' \<notin> set ''48.85''"
    by (simp add: resolve_columns_vals)
  from row_repair [where header = ?h and la = 1 and lo = 2 and row = "[''1.2.3.4'', ''48.85'']"
      and before = "[]" and rest = "[[''9.9.9.9'', ''10'', ''20'']]"] h1
  have r1: "load_csv_points [?h, [''1.2.3.4'', ''48.85''], [''9.9.9.9'', ''10'', ''20'']]
     = load_csv_points [?h, [''9.9.9.9'', ''10'', ''20'']]" by simp
  from row_repair [where header = ?h and la = 1 and lo = 2 and a = "''48.85''" and b = "''2.35''"
      and ident = "''1.2.3.4''" and before = "[]" and rest = "[]"] h2
  have r2: "load_csv_points [?h, [''1.2.3.4'', ''48.85,2.35'']]
     = load_csv_points [?h, [''1.2.3.4'', ''48.85'', ''2.35'']]" by simp
  have r3: "load_csv_points [?h, [''1.2.3.4'', ''48.85'', ''2.35'']]
     = Inr [(to_double (4885 / 100), to_double (235 / 100))]"
    by (simp add: load_csv_points_def resolve_columns_vals row_defs to_double_norm)
  from r1 r2 r3 show ?thesis by simp
qed

text \<open>
  The header \<open>lat,ip,lon\<close> resolves to the indices 0 and 2, which need three fields; the
  repaired row is read at these indices, its field 0 is not a number, and no point results.
\<close>

theorem row_repair_counterexample:
  "resolve_columns [''lat'', ''ip'', ''lon''] = (0, 2) \<and> max 0 (2::nat) = 2
   \<and> load_csv_points [[''lat'', ''ip'', ''lon''], [''1.2.3.4'', ''48.85,2.35'']] = Inr []
   \<and> load_csv_points [[''lat'', ''ip'', ''lon''], [''1.2.3.4'', ''48.85,2.35'']]
        \<noteq> Inr [(to_double (4885 / 100), to_double (235 / 100))]"
  by (simp add: load_csv_points_def resolve_columns_vals row_defs to_double_norm)

text \<open>
  C5.  Let \<open>lat\<close> and \<open>lon\<close> be floats in range, and let the fields of a row at the
  resolved indices be decimal numerals that denote them: each is written with a sign,
  digits, an optional fraction and an optional exponent, and the float nearest to its
  value is \<open>lat\<close>, respectively \<open>lon\<close>.  Then the loader reads the numerals back and
  yields exactly the point \<open>(lat, lon)\<close> for the row: alone, and at its place between the
  points of the rows before and after it.
\<close>

theorem load_csv_points_round_trip:
  "header \<noteq> [] \<and> resolve_columns header = (la, lo) \<and> la < length row \<and> lo < length row
   \<and> wf_decimal dlat \<and> wf_decimal dlon
   \<and> row ! la = decimal_str dlat \<and> row ! lo = decimal_str dlon
   \<and> to_double (decimal_value dlat) = lat \<and> to_double (decimal_value dlon) = lon
   \<and> fle (Fin (- 90)) lat \<and> fle lat (Fin 90) \<and> fle (Fin (- 180)) lon \<and> fle lon (Fin 180)
   \<longrightarrow> load_csv_points [header, row] = Inr [(lat, lon)]
       \<and> (load_csv_points (header # before) = Inr ps \<and> load_csv_points (header # rest) = Inr qs
            \<longrightarrow> load_csv_points (header # before @ row # rest) = Inr (ps @ (lat, lon) # qs))"
proof (intro impI)
  assume a: "header \<noteq> [] \<and> resolve_columns header = (la, lo) \<and> la < length row \<and> lo < length row
   \<and> wf_decimal dlat \<and> wf_decimal dlon
   \<and> row ! la = decimal_str dlat \<and> row ! lo = decimal_str dlon
   \<and> to_double (decimal_value dlat) = lat \<and> to_double (decimal_value dlon) = lon
   \<and> fle (Fin (- 90)) lat \<and> fle lat (Fin 90) \<and> fle (Fin (- 180)) lon \<and> fle lon (Fin 180)"
  then have "in_range lat lon" by (simp add: in_range_def)
  moreover from a have "parse_float (row ! la) = Some lat" "parse_float (row ! lo) = Some lon"
    by (simp_all add: parse_float_decimal_str del: decimal_str.simps decimal_value.simps)
  ultimately have rp: "row_point la lo row = Inr (Some (lat, lon))"
    using a by (simp add: row_point_good)
  have one: "load_csv_points [header, row] = Inr [(lat, lon)]"
    using a rp by (simp add: load_csv_points_def)
  have many: "load_csv_points (header # before @ row # rest) = Inr (ps @ (lat, lon) # qs)"
    if "load_csv_points (header # before) = Inr ps \<and> load_csv_points (header # rest) = Inr qs"
  proof -
    from that a have "load_rows la lo before [] = Inr ps" "load_rows la lo rest [] = Inr qs"
      by (simp_all add: load_csv_points_def)
    from load_rows_keep [OF rp this] a show ?thesis by (simp add: load_csv_points_def)
  qed
  from one many
  show "load_csv_points [header, row] = Inr [(lat, lon)]
       \<and> (load_csv_points (header # before) = Inr ps \<and> load_csv_points (header # rest) = Inr qs
            \<longrightarrow> load_csv_points (header # before @ row # rest) = Inr (ps @ (lat, lon) # qs))"
    by blast
qed

theorem load_csv_points_round_trip_witness:
  "decimal_str (Decimal False [4, 8] [8, 5] None) = ''48.85''
   \<and> decimal_str (Decimal True [2] [5] (Some (True, [0, 1]))) = ''-2.5e-01''
   \<and> to_double (4885 / 100) = Fin (6875026306157773 / 140737488355328)
   \<and> to_double (- (1 / 4)) = Fin (- (1 / 4))
   \<and> load_csv_points [[''ip'', ''latitude'', ''longitude''], [''1.2.3.4'', ''48.85'', ''-2.5e-01'']]
        = Inr [(to_double (4885 / 100), to_double (- (1 / 4)))]
   \<and> load_csv_points [[''ip'', ''latitude'', ''longitude''], [''8.8.8.8'', ''37.4'', ''-122.1''],
         [''1.2.3.4'', ''48.85'', ''-2.5e-01''], [''9.9.9.9'', ''91'', ''0'']]
        = Inr [(to_double (374 / 10), to_double (- 1221 / 10)),
               (to_double (4885 / 100), to_double (- (1 / 4)))]"
proof -
  let ?h = "[''ip'', ''latitude'', ''longitude'']"
  let ?row = "[''1.2.3.4'', ''48.85'', ''-2.5e-01'']"
  let ?dlat = "Decimal False [4, 8] [8, 5] None"
  let ?dlon = "Decimal True [2] [5] (Some (True, [0, 1]))"
  let ?lat = "to_double (4885 / 100)" and ?lon = "to_double (- (1 / 4))"
  have hyp: "?h \<noteq> [] \<and> resolve_columns ?h = (1, 2) \<and> 1 < length ?row \<and> 2 < length ?row
   \<and> wf_decimal ?dlat \<and> wf_decimal ?dlon
   \<and> ?row ! 1 = decimal_str ?dlat \<and> ?row ! 2 = decimal_str ?dlon
   \<and> to_double (decimal_value ?dlat) = ?lat \<and> to_double (decimal_value ?dlon) = ?lon
   \<and> fle (Fin (- 90)) ?lat \<and> fle ?lat (Fin 90) \<and> fle (Fin (- 180)) ?lon \<and> fle ?lon (Fin 180)"
    by (simp add: resolve_columns_vals decimal_str_vals decimal_value_vals decimal_vals_Suc
        to_double_norm to_double_more del: decimal_str.simps decimal_value.simps)
  have pre: "load_csv_points (?h # [[''8.8.8.8'', ''37.4'', ''-122.1'']])
      = Inr [(to_double (374 / 10), to_double (- 1221 / 10))]"
    by (simp add: load_csv_points_def resolve_columns_vals row_defs to_double_norm)
  have post: "load_csv_points (?h # [[''9.9.9.9'', ''91'', ''0'']]) = Inr []"
    by (simp add: load_csv_points_def resolve_columns_vals row_defs)
  from load_csv_points_round_trip [of ?h 1 2 ?row ?dlat ?dlon ?lat ?lon "[[''8.8.8.8'', ''37.4'', ''-122.1'']]"
      "[(to_double (374 / 10), to_double (- 1221 / 10))]" "[[''9.9.9.9'', ''91'', ''0'']]" "[]"]
    hyp pre post
  have main: "load_csv_points [?h, ?row] = Inr [(?lat, ?lon)]
      \<and> load_csv_points [?h, [''8.8.8.8'', ''37.4'', ''-122.1''], ?row, [''9.9.9.9'', ''91'', ''0'']]
        = Inr [(to_double (374 / 10), to_double (- 1221 / 10)), (?lat, ?lon)]"
    by simp
  have vals: "to_double (4885 / 100) = Fin (6875026306157773 / 140737488355328)"
    "to_double (- (1 / 4)) = Fin (- (1 / 4))"
    by (simp_all add: to_double_norm to_double_more)
  from main vals decimal_str_vals show ?thesis by blast
qed

text \<open>
  C10.  Under a header of a single column the indices are 1 and 2 (the last resort): the
  file is loaded as under the header \<open>ip,latitude,longitude\<close>.  A data row that has
  neither three or more fields nor exactly two fields with a comma in the second adds no
  point, wherever it stands in the file.
\<close>

theorem single_column_header:
  "length header = 1 \<longrightarrow>
     resolve_columns header = (1, 2)
     \<and> load_csv_points (header # rows) = load_csv_points ([''ip'', ''latitude'', ''longitude''] # rows)
     \<and> (\<not> (3 \<le> length row \<or> (length row = 2 \<and> CHR '','' \<in> set (row ! 1)))
          \<longrightarrow> load_csv_points (header # before @ row # rest) = load_csv_points (header # before @ rest))"
proof (intro impI)
  assume len: "length header = 1"
  then have ne: "header \<noteq> []" by auto
  from len have rc: "resolve_columns header = (1, 2)" by (rule resolve_columns_single)
  with ne have ld: "load_csv_points (header # rows) = load_rows 1 2 rows []" for rows
    by (simp add: load_csv_points_def)
  have std: "load_csv_points ([''ip'', ''latitude'', ''longitude''] # rows) = load_rows 1 2 rows []"
    by (simp add: load_csv_points_def resolve_columns_vals)
  have skip: "load_csv_points (header # before @ row # rest) = load_csv_points (header # before @ rest)"
    if n: "\<not> (3 \<le> length row \<or> (length row = 2 \<and> CHR '','' \<in> set (row ! 1)))"
  proof -
    from n have "length row \<le> max 1 (2::nat)" "\<not> (length row = 2 \<and> CHR '','' \<in> set (row ! 1))"
      by auto
    then have "row_point 1 2 row = Inr None" by (rule row_point_short)
    then have "load_rows 1 2 (before @ row # rest) [] = load_rows 1 2 (before @ rest) []"
      by (rule load_rows_skip)
    then show ?thesis by (simp only: ld)
  qed
  from rc ld [of rows] std skip
  show "resolve_columns header = (1, 2)
     \<and> load_csv_points (header # rows) = load_csv_points ([''ip'', ''latitude'', ''longitude''] # rows)
     \<and> (\<not> (3 \<le> length row \<or> (length row = 2 \<and> CHR '','' \<in> set (row ! 1)))
          \<longrightarrow> load_csv_points (header # before @ row # rest) = load_csv_points (header # before @ rest))"
    by simp
qed

theorem single_column_header_witness:
  "length [''lat''] = 1 \<and> resolve_columns [''lat''] = (1, 2)
   \<and> load_csv_points [[''lat''], [''48.85'', ''2.35''], [''1.2.3.4'', ''48.85,2.35'']]
        = load_csv_points [[''lat''], [''1.2.3.4'', ''48.85,2.35'']]
   \<and> load_csv_points [[''lat''], [''1.2.3.4'', ''48.85,2.35'']]
        = Inr [(to_double (4885 / 100), to_double (235 / 100))]"
proof -
  have len: "length [''lat''] = 1" by simp
  have short: "\<not> (3 \<le> length [''48.85'', ''2.35'']
      \<or> (length [''48.85'', ''2.35''] = 2 \<and> CHR '','' \<in> set ([''48.85'', ''2.35''] ! 1)))"
    by simp
  from single_column_header [where header = "[''lat'']" and rows = "[[''1.2.3.4'', ''48.85,2.35'']]"
      and row = "[''48.85'', ''2.35'']" and before = "[]" and rest = "[[''1.2.3.4'', ''48.85,2.35'']]"]
    len short
  have r: "resolve_columns [''lat''] = (1, 2)"
    "load_csv_points [[''lat''], [''1.2.3.4'', ''48.85,2.35'']]
       = load_csv_points [[''ip'', ''latitude'', ''longitude''], [''1.2.3.4'', ''48.85,2.35'']]"
    "load_csv_points [[''lat''], [''48.85'', ''2.35''], [''1.2.3.4'', ''48.85,2.35'']]
       = load_csv_points [[''lat''], [''1.2.3.4'', ''48.85,2.35'']]"
    by simp_all
  have ev: "load_csv_points [[''ip'', ''latitude'', ''longitude''], [''1.2.3.4'', ''48.85,2.35'']]
      = Inr [(to_double (4885 / 100), to_double (235 / 100))]"
    by (simp add: load_csv_points_def resolve_columns_vals row_defs to_double_norm)
  from r ev show ?thesis by simp
qed

section \<open>Claims about the bounds aggregator\<close>

lemma fle_refl: "x \<noteq> NaN \<Longrightarrow> fle x x"
  by (cases x) auto

lemma fle_trans: "fle x y \<Longrightarrow> fle y z \<Longrightarrow> fle x z"
  by (cases x; cases y; cases z) auto

lemma flt_fle: "flt x y \<Longrightarrow> fle x y"
  by (cases x; cases y) auto

lemma not_flt_fle: "\<not> flt x y \<Longrightarrow> x \<noteq> NaN \<Longrightarrow> y \<noteq> NaN \<Longrightarrow> fle y x"
  by (cases x; cases y) auto

lemma min_from_mem: "min_from m xs \<in> set (m # xs)"
  by (induction xs arbitrary: m) auto

lemma max_from_mem: "max_from m xs \<in> set (m # xs)"
  by (induction xs arbitrary: m) auto

lemma min_from_le:
  "\<forall>x \<in> set (m # xs). x \<noteq> NaN \<Longrightarrow> \<forall>x \<in> set (m # xs). fle (min_from m xs) x"
proof (induction xs arbitrary: m)
  case Nil
  then show ?case by (simp add: fle_refl)
next
  case (Cons y ys)
  let ?m = "if flt y m then y else m"
  from Cons.prems have nn: "\<forall>x \<in> set (?m # ys). x \<noteq> NaN" by auto
  from Cons.IH [OF nn] have ih: "\<forall>x \<in> set (?m # ys). fle (min_from ?m ys) x" .
  then have top: "fle (min_from ?m ys) ?m" by simp
  from Cons.prems have "fle ?m m" "fle ?m y"
    by (auto simp: fle_refl flt_fle not_flt_fle)
  with top have "fle (min_from ?m ys) m" "fle (min_from ?m ys) y"
    by (blast intro: fle_trans)+
  with ih show ?case by auto
qed

lemma max_from_ge:
  "\<forall>x \<in> set (m # xs). x \<noteq> NaN \<Longrightarrow> \<forall>x \<in> set (m # xs). fle x (max_from m xs)"
proof (induction xs arbitrary: m)
  case Nil
  then show ?case by (simp add: fle_refl)
next
  case (Cons y ys)
  let ?m = "if flt m y then y else m"
  from Cons.prems have nn: "\<forall>x \<in> set (?m # ys). x \<noteq> NaN" by auto
  from Cons.IH [OF nn] have ih: "\<forall>x \<in> set (?m # ys). fle x (max_from ?m ys)" .
  then have top: "fle ?m (max_from ?m ys)" by simp
  from Cons.prems have "fle m ?m" "fle y ?m"
    by (auto simp: fle_refl flt_fle not_flt_fle)
  with top have "fle m (max_from ?m ys)" "fle y (max_from ?m ys)"
    by (blast intro: fle_trans)+
  with ih show ?case by auto
qed

lemma is_least_min_from: "\<forall>x \<in> set (m # xs). x \<noteq> NaN \<Longrightarrow> is_least (min_from m xs) (m # xs)"
  unfolding is_least_def using min_from_mem [of m xs] min_from_le [of m xs] by blast

lemma is_greatest_max_from: "\<forall>x \<in> set (m # xs). x \<noteq> NaN \<Longrightarrow> is_greatest (max_from m xs) (m # xs)"
  unfolding is_greatest_def using max_from_mem [of m xs] max_from_ge [of m xs] by blast

lemma concat_empty_iff: "concat (map snd d) = [] \<longleftrightarrow> (\<forall>kv \<in> set d. snd kv = [])"
  by (induction d) auto

lemma bounds_of_points:
  "(case (map fst pts, map snd pts) of
      (la # las, lo # los) \<Rightarrow>
        Some [(min_from la las, min_from lo los), (max_from la las, max_from lo los)]
    | _ \<Rightarrow> None) =
   (case pts of [] \<Rightarrow> None
     | p # ps \<Rightarrow> Some [(min_from (fst p) (map fst ps), min_from (snd p) (map snd ps)),
                       (max_from (fst p) (map fst ps), max_from (snd p) (map snd ps))])"
  by (cases pts) simp_all

lemma fit_bounds_cases:
  "fit_bounds_from_points d = (case all_points d of [] \<Rightarrow> None
     | p # ps \<Rightarrow> Some [(min_from (fst p) (map fst ps), min_from (snd p) (map snd ps)),
                       (max_from (fst p) (map fst ps), max_from (snd p) (map snd ps))])"
  unfolding fit_bounds_from_points_def all_points_def Let_def by (rule bounds_of_points)

lemma all_points_empty_iff: "all_points d = [] \<longleftrightarrow> (\<forall>kv \<in> set d. snd kv = [])"
  unfolding all_points_def by (induction d) auto

text \<open>
  C6.  The result is \<open>None\<close> exactly when the mapping is empty or all its trajectories are
  empty.  Otherwise it is the pair of the point of the least latitude and least longitude
  and the point of the greatest latitude and greatest longitude, each taken on its own
  over all points of all trajectories (coordinates that are numbers, as every point of a
  trajectory is).  The trajectories \<open>a: (10,10), (20,20)\<close> and \<open>b: (-5,30)\<close> give
  \<open>((-5,10), (20,30))\<close>.
\<close>

theorem fit_bounds_from_points_spec:
  "(fit_bounds_from_points d = None \<longleftrightarrow> d = [] \<or> (\<forall>kv \<in> set d. snd kv = []))
   \<and> (fit_bounds_from_points d = Some r \<longrightarrow>
        (\<exists>a b c e. r = [(a, b), (c, e)]
           \<and> ((\<forall>p \<in> set (all_points d). fst p \<noteq> NaN \<and> snd p \<noteq> NaN) \<longrightarrow>
                is_least a (map fst (all_points d)) \<and> is_least b (map snd (all_points d))
                \<and> is_greatest c (map fst (all_points d)) \<and> is_greatest e (map snd (all_points d)))))
   \<and> fit_bounds_from_points
        [(''a'', [(Fin 10, Fin 10), (Fin 20, Fin 20)]), (''b'', [(Fin (- 5), Fin 30)])]
        = Some [(Fin (- 5), Fin 10), (Fin 20, Fin 30)]"
proof (intro conjI impI)
  show "fit_bounds_from_points d = None \<longleftrightarrow> d = [] \<or> (\<forall>kv \<in> set d. snd kv = [])"
  proof (cases "all_points d")
    case Nil
    then have "fit_bounds_from_points d = None"
      by (simp add: fit_bounds_cases)
    moreover from Nil have "\<forall>kv \<in> set d. snd kv = []"
      by (simp add: all_points_empty_iff)
    ultimately show ?thesis by blast
  next
    case (Cons p ps)
    then have "fit_bounds_from_points d \<noteq> None"
      by (simp add: fit_bounds_cases)
    moreover from Cons have "\<not> (\<forall>kv \<in> set d. snd kv = [])"
      using all_points_empty_iff [of d] by simp
    moreover from Cons have "d \<noteq> []" by (auto simp: all_points_def)
    ultimately show ?thesis by blast
  qed
next
  assume some: "fit_bounds_from_points d = Some r"
  show "\<exists>a b c e. r = [(a, b), (c, e)]
           \<and> ((\<forall>p \<in> set (all_points d). fst p \<noteq> NaN \<and> snd p \<noteq> NaN) \<longrightarrow>
                is_least a (map fst (all_points d)) \<and> is_least b (map snd (all_points d))
                \<and> is_greatest c (map fst (all_points d)) \<and> is_greatest e (map snd (all_points d)))"
  proof (cases "all_points d")
    case Nil
    with some show ?thesis by (simp add: fit_bounds_cases)
  next
    case (Cons p ps)
    let ?la = "fst p" and ?las = "map fst ps" and ?lo = "snd p" and ?los = "map snd ps"
    from Cons some have r: "r = [(min_from ?la ?las, min_from ?lo ?los), (max_from ?la ?las, max_from ?lo ?los)]"
      by (simp add: fit_bounds_cases)
    have "is_least (min_from ?la ?las) (map fst (all_points d)) \<and> is_least (min_from ?lo ?los) (map snd (all_points d))
        \<and> is_greatest (max_from ?la ?las) (map fst (all_points d)) \<and> is_greatest (max_from ?lo ?los) (map snd (all_points d))"
      if nn: "\<forall>p \<in> set (all_points d). fst p \<noteq> NaN \<and> snd p \<noteq> NaN"
    proof -
      from nn Cons have "\<forall>x \<in> set (?la # ?las). x \<noteq> NaN" "\<forall>x \<in> set (?lo # ?los). x \<noteq> NaN"
        by auto
      then show ?thesis
        using is_least_min_from is_greatest_max_from by (simp add: Cons)
    qed
    with r show ?thesis by blast
  qed
next
  show "fit_bounds_from_points
        [(''a'', [(Fin 10, Fin 10), (Fin 20, Fin 20)]), (''b'', [(Fin (- 5), Fin 30)])]
        = Some [(Fin (- 5), Fin 10), (Fin 20, Fin 30)]"
    by (simp add: fit_bounds_from_points_def)
qed

theorem fit_bounds_from_points_spec_witness:
  "fit_bounds_from_points [(''a'', []), (''b'', [])] = None
   \<and> fit_bounds_from_points [(''a'', [(Fin 1, Fin 4)]), (''b'', []), (''c'', [(Fin 3, Fin 2)])]
        = Some [(Fin 1, Fin 2), (Fin 3, Fin 4)]
   \<and> is_least (Fin 1) [Fin 1, Fin 3] \<and> is_least (Fin 2) [Fin 4, Fin 2]
   \<and> is_greatest (Fin 3) [Fin 1, Fin 3] \<and> is_greatest (Fin 4) [Fin 4, Fin 2]"
proof -
  let ?d = "[(''a'', [(Fin 1, Fin 4)]), (''b'', []), (''c'', [(Fin 3, Fin 2)])]"
  have none: "fit_bounds_from_points [(''a'', []), (''b'', [])] = None"
    using fit_bounds_from_points_spec [of "[(''a'', []), (''b'', [])]"] by simp
  have ev: "fit_bounds_from_points ?d = Some [(Fin 1, Fin 2), (Fin 3, Fin 4)]"
    by (simp add: fit_bounds_from_points_def)
  have pts: "all_points ?d = [(Fin 1, Fin 4), (Fin 3, Fin 2)]"
    by (simp add: all_points_def)
  from fit_bounds_from_points_spec [of ?d "[(Fin 1, Fin 2), (Fin 3, Fin 4)]"] ev
  have "is_least (Fin 1) [Fin 1, Fin 3] \<and> is_least (Fin 2) [Fin 4, Fin 2]
   \<and> is_greatest (Fin 3) [Fin 1, Fin 3] \<and> is_greatest (Fin 4) [Fin 4, Fin 2]"
    by (simp add: pts)
  with none ev show ?thesis by simp
qed

section \<open>Rounding error\<close>

lemma pow2_pos: "0 < pow2 k"
  by (simp add: pow2_def)

lemma pow2_nat: "pow2 (int n) = 2 ^ n"
  by (simp add: pow2_def)

lemma pow2_neg_nat: "pow2 (- int n) = 1 / 2 ^ n"
  by (cases "n = 0") (simp_all add: pow2_def)

lemma bits_pos: "0 < n \<Longrightarrow> 0 < bits n"
  by (simp add: bits.simps [of n])

lemma bits_bounds: "0 < n \<Longrightarrow> 2 ^ (bits n - 1) \<le> n \<and> n < 2 ^ bits n"
proof (induction n rule: bits.induct)
  case (1 n)
  show ?case
  proof (cases "n div 2 = 0")
    case True
    with "1.prems" have "n = 1" by presburger
    then show ?thesis by (simp add: bits.simps [of "Suc 0"] bits.simps [of 0])
  next
    case False
    with "1.IH" "1.prems" have ih: "2 ^ (bits (n div 2) - 1) \<le> n div 2" "n div 2 < 2 ^ bits (n div 2)"
      by auto
    from False have pos: "0 < bits (n div 2)" by (simp add: bits.simps [of "n div 2"])
    from "1.prems" have b: "bits n = Suc (bits (n div 2))" by (simp add: bits.simps [of n])
    from ih(1) have "2 * 2 ^ (bits (n div 2) - 1) \<le> n" by linarith
    moreover from pos have "2 * 2 ^ (bits (n div 2) - 1) = (2::nat) ^ bits (n div 2)"
      by (cases "bits (n div 2)") simp_all
    moreover from ih(2) have "n < 2 * 2 ^ bits (n div 2)" by linarith
    ultimately show ?thesis by (simp add: b)
  qed
qed

lemma ilog2_lower:
  assumes "0 < q"
  shows "pow2 (ilog2 q) \<le> q"
proof (cases "1 \<le> q")
  case True
  define n where "n = nat \<lfloor>q\<rfloor>"
  from True have n: "0 < n" by (simp add: n_def)
  from True have il: "ilog2 q = int (bits n) - 1" by (simp add: ilog2_def n_def)
  from bits_pos [OF n] have e: "int (bits n) - 1 = int (bits n - 1)" by simp
  from bits_bounds [OF n] have lo: "2 ^ (bits n - 1) \<le> n" by auto
  then have "(2::rat) ^ (bits n - 1) \<le> of_nat n"
    by (metis of_nat_le_iff of_nat_numeral of_nat_power)
  also have "(of_nat n :: rat) \<le> q" using True by (simp add: n_def of_nat_nat)
  finally show ?thesis by (simp only: il e pow2_nat)
next
  case False
  define r where "r = 1 / q"
  define c where "c = \<lceil>r\<rceil>"
  define n where "n = nat (c - 1)"
  from False assms have r1: "1 < r" by (simp add: r_def)
  then have c2: "2 \<le> c" unfolding c_def by (simp add: le_ceiling_iff)
  then have n: "0 < n" unfolding n_def by linarith
  from False have il: "ilog2 q = - int (bits n)"
    by (simp add: ilog2_def n_def c_def r_def)
  from bits_bounds [OF n] have hi: "n < 2 ^ bits n" by auto
  from c2 have "int n = c - 1" unfolding n_def by linarith
  then have "(of_int (int n) :: rat) = of_int c - 1" by simp
  then have cn: "of_int c = (of_nat n :: rat) + 1" by simp
  from hi have "Suc n \<le> 2 ^ bits n" by (rule Suc_leI)
  then have "(of_nat (n + 1) :: rat) \<le> 2 ^ bits n"
    by (metis Suc_eq_plus1 of_nat_le_iff of_nat_numeral of_nat_power)
  moreover have "r \<le> of_int c" unfolding c_def by (rule le_of_int_ceiling)
  ultimately have "r \<le> 2 ^ bits n" using cn by (simp only: of_nat_add of_nat_1)
  with assms have "1 \<le> q * 2 ^ bits n" by (simp add: r_def field_simps)
  then show ?thesis by (simp add: il pow2_neg_nat field_simps)
qed

lemma rnd_even_close: "\<bar>of_int (rnd_even t) - t\<bar> \<le> 1 / 2"
proof -
  have "of_int \<lfloor>t\<rfloor> \<le> t" "t < of_int \<lfloor>t\<rfloor> + 1" by linarith+
  then show ?thesis
    by (auto simp: rnd_even_def Let_def abs_le_iff)
qed

lemma rnd_even_nonneg: "0 \<le> t \<Longrightarrow> 0 \<le> rnd_even t"
  by (auto simp: rnd_even_def Let_def)

lemma rd_nonneg:
  assumes "0 \<le> q"
  shows "0 \<le> rd q"
proof (cases "q = 0")
  case True
  then show ?thesis by (simp add: rd_def)
next
  case False
  define x where "x = max (ilog2 q - 52) (- 1074)"
  from assms pow2_pos [of x] have "0 \<le> q / pow2 x" by simp
  then have "0 \<le> rnd_even (q / pow2 x)" by (rule rnd_even_nonneg)
  then have "0 \<le> (of_int (rnd_even (q / pow2 x)) :: rat) * pow2 x"
    using pow2_pos [of x] by simp
  with False assms show ?thesis by (simp add: rd_def Let_def x_def)
qed

lemma tiny: "pow2 (- 1074) \<le> 1 / 1000000"
proof -
  have "(1000000::rat) \<le> 2 ^ 20" by simp
  also have "\<dots> \<le> 2 ^ 1074" by (rule power_increasing) simp_all
  finally have "(1000000::rat) \<le> 2 ^ 1074" .
  then have "1 / (2::rat) ^ 1074 \<le> 1 / 1000000" by (simp add: field_simps)
  moreover have "pow2 (- 1074) = 1 / 2 ^ 1074" using pow2_neg_nat [of 1074] by simp
  ultimately show ?thesis by simp
qed

lemma rd_close:
  assumes "0 \<le> q"
  shows "\<bar>rd q - q\<bar> \<le> q / 1000000 + 1 / 1000000"
proof (cases "q = 0")
  case True
  then show ?thesis by (simp add: rd_def)
next
  case False
  with assms have pos: "0 < q" by simp
  define x where "x = max (ilog2 q - 52) (- 1074)"
  define t where "t = q / pow2 x"
  have r: "rd q = of_int (rnd_even t) * pow2 x"
    using pos by (simp add: rd_def Let_def x_def t_def)
  have q: "q = t * pow2 x" using pow2_pos [of x] by (simp add: t_def)
  have "rd q - q = (of_int (rnd_even t) - t) * pow2 x"
    by (simp add: r algebra_simps) (simp add: q [symmetric])
  then have "\<bar>rd q - q\<bar> = \<bar>of_int (rnd_even t) - t\<bar> * pow2 x"
    using pow2_pos [of x] by (simp add: abs_mult)
  also have "\<dots> \<le> 1 / 2 * pow2 x"
    using rnd_even_close [of t] pow2_pos [of x] by (simp add: mult_right_mono)
  finally have err: "\<bar>rd q - q\<bar> \<le> pow2 x / 2" by simp
  have "pow2 x \<le> q / 1000000 + 1 / 1000000"
  proof (cases "ilog2 q - 52 \<le> - 1074")
    case True
    then have "x = - 1074" by (simp add: x_def)
    with tiny pos show ?thesis by (simp add: add_increasing)
  next
    case False
    then have x: "x = ilog2 q - 52" by (simp add: x_def)
    have "pow2 (ilog2 q) = pow2 x * 2 ^ 52"
    proof -
      have "pow2 k = 2 powi k" for k
        by (simp add: pow2_def power_int_def field_simps)
      then have "pow2 (x + 52) = pow2 x * pow2 52" by (simp add: power_int_add)
      then show ?thesis by (simp add: x pow2_def)
    qed
    with ilog2_lower [OF pos] have "pow2 x * 2 ^ 52 \<le> q" by simp
    then have "pow2 x \<le> q / 2 ^ 52" by (simp add: field_simps)
    also have "\<dots> \<le> q / 1000000" using pos by (simp add: field_simps)
    finally show ?thesis by simp
  qed
  with err pow2_pos [of x] show ?thesis by linarith
qed

lemma rd_upper:
  assumes "0 \<le> q" "q \<le> u"
  shows "rd q \<le> u + u / 1000000 + 1 / 1000000"
proof -
  from rd_close [OF assms(1)] have "rd q - q \<le> q / 1000000 + 1 / 1000000"
    by (simp only: abs_le_iff)
  with assms(2) show ?thesis by linarith
qed

lemma rd_lower:
  assumes "0 \<le> l" "l \<le> q"
  shows "l - l / 1000000 - 1 / 1000000 \<le> rd q"
proof -
  from assms have "0 \<le> q" by simp
  from rd_close [OF this] have "- (rd q - q) \<le> q / 1000000 + 1 / 1000000"
    by (simp only: abs_le_iff)
  with assms(2) show ?thesis by linarith
qed

section \<open>Claims about the palette generator\<close>

lemma rd_le: "0 \<le> q \<Longrightarrow> q \<le> u \<Longrightarrow> u + u / 1000000 + 1 / 1000000 \<le> b \<Longrightarrow> rd q \<le> b"
  using rd_upper [of q u] by simp

lemma rd_ge: "0 \<le> l \<Longrightarrow> l \<le> q \<Longrightarrow> b \<le> l - l / 1000000 - 1 / 1000000 \<Longrightarrow> b \<le> rd q"
  using rd_lower [of l q] by simp

lemma py_mod1_nonneg: "0 \<le> py_mod1 x"
proof -
  define m where "m = x - of_int (if 0 \<le> x then \<lfloor>x\<rfloor> else \<lceil>x\<rceil>)"
  have "- 1 < m"
    unfolding m_def by (cases "0 \<le> x") (simp_all, linarith+)
  then have "0 \<le> fadd m 1" unfolding fadd_def by (intro rd_nonneg) simp
  then show ?thesis by (simp add: py_mod1_def Let_def m_def [symmetric])
qed

lemma sixth_bound: "ONE_SIXTH \<le> 1667 / 10000"
  unfolding ONE_SIXTH_def fdiv_def by (rule rd_le [where u = "1 / 6"]) simp_all

lemma two_third_bound: "TWO_THIRD \<le> 6667 / 10000"
  unfolding TWO_THIRD_def fdiv_def by (rule rd_le [where u = "2 / 3"]) simp_all

text \<open>The ramp \<open>m1 + d * w * 6\<close> for a weight \<open>w\<close> of at most about a sixth.\<close>

lemma ramp_range:
  assumes m1: "997 / 10000 \<le> m1" "m1 \<le> 1003 / 10000"
    and d: "0 \<le> d" "d \<le> 801 / 1000"
    and w: "0 \<le> w" "w \<le> 1668 / 10000"
  shows "0 \<le> fadd m1 (fmul (fmul d w) 6) \<and> fadd m1 (fmul (fmul d w) 6) \<le> 91 / 100"
proof -
  have p0: "0 \<le> d * w" using d(1) w(1) by simp
  have "d * w \<le> 801 / 1000 * (1668 / 10000)"
    using d w by (intro mult_mono) simp_all
  then have p1: "d * w \<le> 1337 / 10000" by simp
  have t1: "0 \<le> fmul d w" "fmul d w \<le> 1338 / 10000"
    unfolding fmul_def using p0 p1
    by (simp add: rd_nonneg, intro rd_le [where u = "1337 / 10000"]) simp_all
  then have q: "0 \<le> fmul d w * 6" "fmul d w * 6 \<le> 8028 / 10000" by simp_all
  have t2: "0 \<le> fmul (fmul d w) 6" "fmul (fmul d w) 6 \<le> 803 / 1000"
    unfolding fmul_def [of "fmul d w" 6] using q
    by (simp add: rd_nonneg, intro rd_le [where u = "8028 / 10000"]) simp_all
  from m1 t2 have s: "0 \<le> m1 + fmul (fmul d w) 6" "m1 + fmul (fmul d w) 6 \<le> 9033 / 10000"
    by simp_all
  have "0 \<le> fadd m1 (fmul (fmul d w) 6)" "fadd m1 (fmul (fmul d w) 6) \<le> 91 / 100"
    unfolding fadd_def using s
    by (simp add: rd_nonneg, intro rd_le [where u = "9033 / 10000"]) simp_all
  then show ?thesis by simp
qed

lemma colorsys_v_range:
  assumes m1: "997 / 10000 \<le> m1" "m1 \<le> 1003 / 10000"
    and m2: "8999 / 10000 \<le> m2" "m2 \<le> 9001 / 10000"
  shows "0 \<le> colorsys_v m1 m2 hue0 \<and> colorsys_v m1 m2 hue0 \<le> 91 / 100"
proof -
  define hue where "hue = py_mod1 hue0"
  define d where "d = fsub m2 m1"
  have h0: "0 \<le> hue" unfolding hue_def by (rule py_mod1_nonneg)
  from m1 m2 have df: "0 \<le> m2 - m1" "m2 - m1 \<le> 8004 / 10000" by simp_all
  have d: "0 \<le> d" "d \<le> 801 / 1000"
    unfolding d_def fsub_def using df
    by (simp add: rd_nonneg, intro rd_le [where u = "8004 / 10000"]) simp_all
  have b1: "0 \<le> fadd m1 (fmul (fmul d hue) 6) \<and> fadd m1 (fmul (fmul d hue) 6) \<le> 91 / 100"
    if "hue < ONE_SIXTH"
  proof -
    from that sixth_bound have "hue \<le> 1668 / 10000" by simp
    with m1 d h0 show ?thesis by (intro ramp_range) simp_all
  qed
  have b3: "0 \<le> fadd m1 (fmul (fmul d (fsub TWO_THIRD hue)) 6)
      \<and> fadd m1 (fmul (fmul d (fsub TWO_THIRD hue)) 6) \<le> 91 / 100"
    if "\<not> hue < 1 / 2" "hue < TWO_THIRD"
  proof -
    from that two_third_bound have g: "0 \<le> TWO_THIRD - hue" "TWO_THIRD - hue \<le> 1667 / 10000"
      by simp_all
    have w: "0 \<le> fsub TWO_THIRD hue" "fsub TWO_THIRD hue \<le> 1668 / 10000"
      unfolding fsub_def using g
      by (simp add: rd_nonneg, intro rd_le [where u = "1667 / 10000"]) simp_all
    with m1 d show ?thesis by (intro ramp_range) simp_all
  qed
  from m1 m2 have b2: "0 \<le> m2 \<and> m2 \<le> 91 / 100" and b4: "0 \<le> m1 \<and> m1 \<le> 91 / 100"
    by simp_all
  show ?thesis
    unfolding colorsys_v_def Let_def hue_def [symmetric] d_def [symmetric]
    using b1 b2 b3 b4 by auto
qed

lemma saturation_bounds: "79999 / 100000 \<le> rd (8 / 10)" "rd (8 / 10) \<le> 80001 / 100000"
proof -
  show "79999 / 100000 \<le> rd (8 / 10)" by (rule rd_ge [where l = "8 / 10"]) simp_all
  show "rd (8 / 10) \<le> 80001 / 100000" by (rule rd_le [where u = "8 / 10"]) simp_all
qed

lemma palette_m:
  assumes s: "79999 / 100000 \<le> s" "s \<le> 80001 / 100000"
  defines "m2 \<equiv> fmul (1 / 2) (fadd 1 s)"
  defines "m1 \<equiv> fsub (fmul 2 (1 / 2)) m2"
  shows "997 / 10000 \<le> m1" "m1 \<le> 1003 / 10000" "8999 / 10000 \<le> m2" "m2 \<le> 9001 / 10000"
proof -
  from s have sum: "179999 / 100000 \<le> 1 + s" "1 + s \<le> 180001 / 100000" by simp_all
  have a1: "17999 / 10000 \<le> fadd 1 s"
    unfolding fadd_def using sum(1) by (intro rd_ge [where l = "179999 / 100000"]) simp_all
  have a2: "fadd 1 s \<le> 18001 / 10000"
    unfolding fadd_def using sum by (intro rd_le [where u = "180001 / 100000"]) simp_all
  from a1 a2 have half: "17999 / 20000 \<le> 1 / 2 * fadd 1 s" "1 / 2 * fadd 1 s \<le> 18001 / 20000"
    by simp_all
  show m2l: "8999 / 10000 \<le> m2"
    unfolding m2_def fmul_def using half(1) by (intro rd_ge [where l = "17999 / 20000"]) simp_all
  show m2u: "m2 \<le> 9001 / 10000"
    unfolding m2_def fmul_def using half by (intro rd_le [where u = "18001 / 20000"]) simp_all
  have o1: "99999 / 100000 \<le> fmul 2 (1 / 2)"
    unfolding fmul_def by (intro rd_ge [where l = 1]) simp_all
  have o2: "fmul 2 (1 / 2) \<le> 100001 / 100000"
    unfolding fmul_def by (intro rd_le [where u = 1]) simp_all
  from o1 o2 m2l m2u
  have df: "998 / 10000 \<le> fmul 2 (1 / 2) - m2" "fmul 2 (1 / 2) - m2 \<le> 1002 / 10000"
    by simp_all
  show "997 / 10000 \<le> m1"
    unfolding m1_def fsub_def using df(1) by (intro rd_ge [where l = "998 / 10000"]) simp_all
  show "m1 \<le> 1003 / 10000"
    unfolding m1_def fsub_def using df by (intro rd_le [where u = "1002 / 10000"]) simp_all
qed

lemma channel_range:
  assumes "0 \<le> v" "v \<le> 91 / 100"
  shows "0 \<le> py_int (fmul v 255) \<and> py_int (fmul v 255) \<le> 255"
proof -
  from assms have q: "0 \<le> v * 255" "v * 255 \<le> 23205 / 100" by simp_all
  have r: "0 \<le> fmul v 255" "fmul v 255 \<le> 233"
    unfolding fmul_def using q
    by (simp add: rd_nonneg, intro rd_le [where u = "23205 / 100"]) simp_all
  then have "\<lfloor>fmul v 255\<rfloor> \<le> 233" by (simp add: floor_le_iff)
  with r show ?thesis by (simp add: py_int_def)
qed

lemma hls_to_rgb_range:
  assumes s: "79999 / 100000 \<le> s" "s \<le> 80001 / 100000"
    and rgb: "hls_to_rgb h (1 / 2) s = (r, g, b)"
  shows "0 \<le> r \<and> r \<le> 255 \<and> 0 \<le> g \<and> g \<le> 255 \<and> 0 \<le> b \<and> b \<le> 255"
proof -
  define m2 where "m2 = fmul (1 / 2) (fadd 1 s)"
  define m1 where "m1 = fsub (fmul 2 (1 / 2)) m2"
  from palette_m [OF s] have pm: "997 / 10000 \<le> m1" "m1 \<le> 1003 / 10000"
    "8999 / 10000 \<le> m2" "m2 \<le> 9001 / 10000"
    unfolding m1_def m2_def by simp_all
  from s have "s \<noteq> 0" by auto
  then have c: "colorsys_hls_to_rgb h (1 / 2) s =
      (colorsys_v m1 m2 (fadd h ONE_THIRD), colorsys_v m1 m2 h, colorsys_v m1 m2 (fsub h ONE_THIRD))"
    by (simp add: colorsys_hls_to_rgb_def Let_def m1_def m2_def)
  from rgb have "r = py_int (fmul (colorsys_v m1 m2 (fadd h ONE_THIRD)) 255)"
    "g = py_int (fmul (colorsys_v m1 m2 h) 255)"
    "b = py_int (fmul (colorsys_v m1 m2 (fsub h ONE_THIRD)) 255)"
    unfolding hls_to_rgb_def c by simp_all
  then show ?thesis
    using colorsys_v_range [OF pm] channel_range by blast
qed

lemma format_02x_two_hex:
  assumes "0 \<le> r" "r \<le> 255"
  shows "format_02x r = two_hex (nat r)"
proof -
  define k where "k = nat r"
  from assms have k: "k < 256" and r: "\<not> r < 0" by (simp_all add: k_def)
  show ?thesis
  proof (cases "k < 16")
    case True
    then have "hex_str k = [hex_digit k]" by (simp add: hex_str.simps [of k])
    with True r show ?thesis
      by (simp add: format_02x_def two_hex_def hex_digit_def hex_digits_def k_def [symmetric])
  next
    case False
    from k have "k div 16 < 16" by simp
    then have "hex_str (k div 16) = [hex_digit (k div 16)]"
      by (simp add: hex_str.simps [of "k div 16"])
    with False have "hex_str k = [hex_digit (k div 16), hex_digit (k mod 16)]"
      by (simp add: hex_str.simps [of k])
    with r show ?thesis
      by (simp add: format_02x_def two_hex_def hex_digit_def k_def [symmetric])
  qed
qed

lemma hex_digits_length: "length hex_digits = 16"
  by (simp add: hex_digits_def)

lemma two_hex_chars:
  assumes "k < 256" "c \<in> set (two_hex k)"
  shows "c \<in> set hex_digits"
proof -
  from assms(1) have "k div 16 < length hex_digits" by (simp add: hex_digits_length)
  then have hi: "hex_digits ! (k div 16) \<in> set hex_digits" by (rule nth_mem)
  have "k mod 16 < length hex_digits" by (simp add: hex_digits_length)
  then have lo: "hex_digits ! (k mod 16) \<in> set hex_digits" by (rule nth_mem)
  from assms(2) have "c = hex_digits ! (k div 16) \<or> c = hex_digits ! (k mod 16)"
    by (simp add: two_hex_def)
  with hi lo show ?thesis by blast
qed

lemma two_hex_length: "length (two_hex k) = 2"
  by (simp add: two_hex_def)

lemma palette_color_format:
  "\<exists>r g b. r < 256 \<and> g < 256 \<and> b < 256
      \<and> palette_color n i = CHR ''#'' # two_hex r @ two_hex g @ two_hex b"
proof -
  define h where "h = py_mod1 (fdiv (of_nat i) (of_int (max 1 n)))"
  obtain r g b where rgb: "hls_to_rgb h (1 / 2) (rd (8 / 10)) = (r, g, b)"
    by (cases "hls_to_rgb h (1 / 2) (rd (8 / 10))") auto
  from hls_to_rgb_range [OF saturation_bounds rgb]
  have rng: "0 \<le> r" "r \<le> 255" "0 \<le> g" "g \<le> 255" "0 \<le> b" "b \<le> 255" by simp_all
  have "palette_color n i = rgb_to_hex r g b"
    unfolding palette_color_def Let_def h_def [symmetric] rgb by simp
  then have "palette_color n i = CHR ''#'' # two_hex (nat r) @ two_hex (nat g) @ two_hex (nat b)"
    using rng by (simp add: rgb_to_hex_def format_02x_two_hex)
  moreover from rng have "nat r < 256" "nat g < 256" "nat b < 256" by simp_all
  ultimately show ?thesis by blast
qed

subsection \<open>Evaluation of the rounding by integer arithmetic\<close>

lemma rnd_even_frac:
  assumes "0 < q"
  shows "rnd_even (of_nat p / of_nat q) = int (div_even p q)"
proof -
  define f where "f = p div q"
  define r where "r = p mod q"
  have p: "p = f * q + r" by (simp add: f_def r_def)
  have fl: "\<lfloor>(of_nat p / of_nat q :: rat)\<rfloor> = int f"
    by (simp add: f_def floor_divide_of_nat_eq)
  have qq: "(0::rat) < of_nat q" using assms by simp
  have d: "(of_nat p / of_nat q :: rat) - of_int (int f) = of_nat r / of_nat q"
    using qq by (simp add: p field_simps)
  have lt: "(of_nat r / of_nat q :: rat) < 1 / 2 \<longleftrightarrow> 2 * r < q"
  proof -
    have "(of_nat r / of_nat q :: rat) < 1 / 2 \<longleftrightarrow> (of_nat (2 * r) :: rat) < of_nat q"
      using qq by (simp add: field_simps)
    then show ?thesis by (simp only: of_nat_less_iff)
  qed
  have gt: "(1 / 2 :: rat) < of_nat r / of_nat q \<longleftrightarrow> q < 2 * r"
  proof -
    have "(1 / 2 :: rat) < of_nat r / of_nat q \<longleftrightarrow> (of_nat q :: rat) < of_nat (2 * r)"
      using qq by (simp add: field_simps)
    then show ?thesis by (simp only: of_nat_less_iff)
  qed
  show ?thesis
    unfolding rnd_even_def Let_def fl d lt gt div_even_def f_def [symmetric] r_def [symmetric]
    by simp
qed

lemma rd_frac:
  assumes "0 < a" "0 < b"
  shows "rd (of_nat a / of_nat b) =
     (let x = max (ilog2 (of_nat a / of_nat b) - 52) (- 1074);
          m = (if 0 \<le> x then div_even a (b * 2 ^ nat x) else div_even (a * 2 ^ nat (- x)) b)
      in of_nat m * pow2 x)"
proof -
  define q :: rat where "q = of_nat a / of_nat b"
  define x where "x = max (ilog2 q - 52) (- 1074)"
  from assms have pos: "0 < q" by (simp add: q_def)
  have r: "rd q = of_int (rnd_even (q / pow2 x)) * pow2 x"
    using pos by (simp add: rd_def Let_def x_def)
  have "rnd_even (q / pow2 x) =
      int (if 0 \<le> x then div_even a (b * 2 ^ nat x) else div_even (a * 2 ^ nat (- x)) b)"
  proof (cases "0 \<le> x")
    case True
    then have e: "q / pow2 x = of_nat a / of_nat (b * 2 ^ nat x)"
      by (simp add: q_def pow2_def)
    from assms have "0 < b * 2 ^ nat x" by simp
    then have "rnd_even (of_nat a / of_nat (b * 2 ^ nat x)) = int (div_even a (b * 2 ^ nat x))"
      by (rule rnd_even_frac)
    with True show ?thesis by (simp only: e if_True)
  next
    case False
    then have e: "q / pow2 x = of_nat (a * 2 ^ nat (- x)) / of_nat b"
      by (simp add: q_def pow2_def)
    from assms have "rnd_even (of_nat (a * 2 ^ nat (- x)) / of_nat b) = int (div_even (a * 2 ^ nat (- x)) b)"
      by (intro rnd_even_frac)
    with False show ?thesis by (simp only: e if_False)
  qed
  with r show ?thesis
    unfolding q_def [symmetric] Let_def x_def [symmetric] by simp
qed

lemma bits_numeral:
  "bits 0 = 0" "bits 1 = 1" "bits (Suc 0) = 1"
  "bits (numeral (Num.Bit0 k)) = Suc (bits (numeral k))"
  "bits (numeral (Num.Bit1 k)) = Suc (bits (numeral k))"
  by (simp_all add: bits.simps [of "numeral (Num.Bit0 k)"] bits.simps [of "numeral (Num.Bit1 k)"]
      bits.simps [of 0] bits.simps [of 1] bits.simps [of "Suc 0"]
      numeral_Bit0_div_2 numeral_Bit1_div_2)

lemma ilog2_numeral:
  "ilog2 (numeral a) = int (bits (numeral a)) - 1"
  "ilog2 (numeral a / numeral b) =
     (if (numeral b :: int) \<le> numeral a then int (bits (nat (numeral a div numeral b))) - 1
      else - int (bits (nat (- (- numeral b div numeral a) - 1))))"
proof -
  show "ilog2 (numeral a) = int (bits (numeral a)) - 1" by (simp add: ilog2_def)
  have fl: "\<lfloor>numeral a / numeral b :: rat\<rfloor> = numeral a div numeral b"
    using floor_divide_of_int_eq [of "numeral a" "numeral b", where ?'a = rat] by simp
  have ce: "\<lceil>numeral b / numeral a :: rat\<rceil> = - (- numeral b div numeral a)"
    using ceiling_divide_eq_div [of "numeral b" "numeral a", where ?'a = rat] by simp
  have le: "(1::rat) \<le> numeral a / numeral b \<longleftrightarrow> (numeral b :: int) \<le> numeral a"
  proof -
    have "(1::rat) \<le> numeral a / numeral b \<longleftrightarrow> (of_int (numeral b) :: rat) \<le> of_int (numeral a)"
      by (simp add: field_simps)
    then show ?thesis by (simp only: of_int_le_iff)
  qed
  show "ilog2 (numeral a / numeral b) =
     (if (numeral b :: int) \<le> numeral a then int (bits (nat (numeral a div numeral b))) - 1
      else - int (bits (nat (- (- numeral b div numeral a) - 1))))"
    unfolding ilog2_def le by (simp add: fl ce)
qed

lemma ilog2_unit_frac:
  "ilog2 (1 / numeral (Num.Bit0 k)) = - int (bits (nat (numeral (Num.Bit0 k) - 1)))"
  "ilog2 (1 / numeral (Num.Bit1 k)) = - int (bits (nat (numeral (Num.Bit1 k) - 1)))"
  by (simp_all add: ilog2_def)

lemma rd_numeral:
  "rd (numeral a / numeral b) =
     (let x = max (ilog2 (numeral a / numeral b) - 52) (- 1074);
          m = (if 0 \<le> x then div_even (numeral a) (numeral b * 2 ^ nat x)
               else div_even (numeral a * 2 ^ nat (- x)) (numeral b))
      in of_nat m * pow2 x)"
  "rd (numeral a) =
     (let x = max (ilog2 (numeral a) - 52) (- 1074);
          m = (if 0 \<le> x then div_even (numeral a) (1 * 2 ^ nat x)
               else div_even (numeral a * 2 ^ nat (- x)) 1)
      in of_nat m * pow2 x)"
  "rd (1 / numeral b) =
     (let x = max (ilog2 (1 / numeral b) - 52) (- 1074);
          m = (if 0 \<le> x then div_even 1 (numeral b * 2 ^ nat x)
               else div_even (1 * 2 ^ nat (- x)) (numeral b))
      in of_nat m * pow2 x)"
proof -
  have "rd (of_nat (numeral a) / of_nat (numeral b)) =
     (let x = max (ilog2 (of_nat (numeral a) / of_nat (numeral b)) - 52) (- 1074);
          m = (if 0 \<le> x then div_even (numeral a) (numeral b * 2 ^ nat x)
               else div_even (numeral a * 2 ^ nat (- x)) (numeral b))
      in of_nat m * pow2 x)"
    by (rule rd_frac) simp_all
  then show "rd (numeral a / numeral b) =
     (let x = max (ilog2 (numeral a / numeral b) - 52) (- 1074);
          m = (if 0 \<le> x then div_even (numeral a) (numeral b * 2 ^ nat x)
               else div_even (numeral a * 2 ^ nat (- x)) (numeral b))
      in of_nat m * pow2 x)"
    by (simp only: of_nat_numeral)
  have "rd (of_nat (numeral a) / of_nat 1) =
     (let x = max (ilog2 (of_nat (numeral a) / of_nat 1) - 52) (- 1074);
          m = (if 0 \<le> x then div_even (numeral a) (1 * 2 ^ nat x)
               else div_even (numeral a * 2 ^ nat (- x)) 1)
      in of_nat m * pow2 x)"
    by (rule rd_frac) simp_all
  then show "rd (numeral a) =
     (let x = max (ilog2 (numeral a) - 52) (- 1074);
          m = (if 0 \<le> x then div_even (numeral a) (1 * 2 ^ nat x)
               else div_even (numeral a * 2 ^ nat (- x)) 1)
      in of_nat m * pow2 x)"
    by (simp only: of_nat_numeral of_nat_1 div_by_1)
  have "rd (of_nat 1 / of_nat (numeral b)) =
     (let x = max (ilog2 (of_nat 1 / of_nat (numeral b)) - 52) (- 1074);
          m = (if 0 \<le> x then div_even 1 (numeral b * 2 ^ nat x)
               else div_even (1 * 2 ^ nat (- x)) (numeral b))
      in of_nat m * pow2 x)"
    by (rule rd_frac) simp_all
  then show "rd (1 / numeral b) =
     (let x = max (ilog2 (1 / numeral b) - 52) (- 1074);
          m = (if 0 \<le> x then div_even 1 (numeral b * 2 ^ nat x)
               else div_even (1 * 2 ^ nat (- x)) (numeral b))
      in of_nat m * pow2 x)"
    by (simp only: of_nat_numeral of_nat_1)
qed

lemma rd_1: "rd 1 = 1"
  using rd_frac [of 1 1] by (simp add: ilog2_def bits_numeral div_even_def pow2_def Let_def)

lemmas rd_eval = rd_numeral ilog2_numeral ilog2_unit_frac bits_numeral div_even_def pow2_def
  Let_def rd_0 rd_1 rd_neg

lemma floor_rat_numeral:
  "\<lfloor>numeral a / numeral b :: rat\<rfloor> = numeral a div numeral b"
  "\<lfloor>1 / numeral b :: rat\<rfloor> = 1 div numeral b"
  using floor_divide_of_int_eq [of "numeral a" "numeral b", where ?'a = rat]
    floor_divide_of_int_eq [of 1 "numeral b", where ?'a = rat]
  by simp_all

lemmas palette_eval = generate_palette_def palette_color_def hls_to_rgb_def colorsys_hls_to_rgb_def
  colorsys_v_def py_mod1_def py_int_def fadd_def fsub_def fmul_def fdiv_def
  ONE_THIRD_def ONE_SIXTH_def TWO_THIRD_def rd_eval rgb_to_hex_def format_02x_def
  hex_str.simps hex_digit_def hex_digits_def floor_rat_numeral ceiling_def

lemma upt_1: "[0..<1] = [0]"
  by (simp add: upt_rec)
lemma palette_1: "generate_palette 1 = [''#e51919'']"
  by (simp add: palette_eval upt_1)

text \<open>
  C7.  \<open>generate_palette(0)\<close> is the empty list.  For \<open>n > 0\<close> the result has \<open>n\<close>
  strings, and each is the character \<open>#\<close> followed by six lower-case hexadecimal digits:
  two digits, with a leading zero where needed, for each of three channels below 256.
\<close>

theorem generate_palette_format:
  "generate_palette 0 = []
   \<and> (0 < n \<longrightarrow>
        length (generate_palette n) = nat n
        \<and> (\<forall>s \<in> set (generate_palette n).
             length s = 7 \<and> hd s = CHR ''#''
             \<and> (\<forall>c \<in> set (tl s). c \<in> set hex_digits)
             \<and> (\<exists>r g b. r < 256 \<and> g < 256 \<and> b < 256
                   \<and> s = CHR ''#'' # two_hex r @ two_hex g @ two_hex b)))"
proof -
  have zero: "generate_palette 0 = []" by (simp add: generate_palette_def)
  have len: "length (generate_palette n) = nat n" if "0 < n"
    using that by (simp add: generate_palette_def)
  have each: "length s = 7 \<and> hd s = CHR ''#''
             \<and> (\<forall>c \<in> set (tl s). c \<in> set hex_digits)
             \<and> (\<exists>r g b. r < 256 \<and> g < 256 \<and> b < 256
                   \<and> s = CHR ''#'' # two_hex r @ two_hex g @ two_hex b)"
    if "s \<in> set (generate_palette n)" for s
  proof -
    from that obtain i where "s = palette_color n i"
      by (auto simp: generate_palette_def split: if_splits)
    with palette_color_format [of n i]
    obtain r g b where rgb: "r < 256" "g < 256" "b < 256"
      and s: "s = CHR ''#'' # two_hex r @ two_hex g @ two_hex b"
      by auto
    from s have l: "length s = 7" by (simp add: two_hex_length)
    from s have h: "hd s = CHR ''#''" by simp
    have c: "\<forall>c \<in> set (tl s). c \<in> set hex_digits"
    proof
      fix c
      assume "c \<in> set (tl s)"
      with s have "c \<in> set (two_hex r) \<or> c \<in> set (two_hex g) \<or> c \<in> set (two_hex b)"
        by simp
      with two_hex_chars rgb show "c \<in> set hex_digits" by blast
    qed
    from l h c s rgb show ?thesis by blast
  qed
  from zero len each show ?thesis by blast
qed

theorem generate_palette_format_witness:
  "0 < (1::int) \<and> generate_palette 1 = [''#e51919''] \<and> length (generate_palette 1) = 1
   \<and> length (generate_palette 1 ! 0) = 7 \<and> hd (generate_palette 1 ! 0) = CHR ''#''
   \<and> generate_palette 1 ! 0 ! 1 \<in> set hex_digits"
proof -
  let ?s = "generate_palette 1 ! 0"
  from generate_palette_format [of 1] have len: "length (generate_palette 1) = 1"
    and each: "\<forall>s \<in> set (generate_palette 1).
             length s = 7 \<and> hd s = CHR ''#'' \<and> (\<forall>c \<in> set (tl s). c \<in> set hex_digits)"
    by simp_all
  from len have "?s \<in> set (generate_palette 1)" by simp
  with each have s: "length ?s = 7" "hd ?s = CHR ''#''" "\<forall>c \<in> set (tl ?s). c \<in> set hex_digits"
    by blast+
  from s(1) have "tl ?s ! 0 \<in> set (tl ?s)" by (intro nth_mem) simp
  moreover from s(1) have "tl ?s ! 0 = ?s ! 1" by (simp add: nth_tl)
  ultimately have "?s ! 1 \<in> set hex_digits" using s(3) by auto
  with len s palette_1 show ?thesis by simp
qed

end
